theory Spec2Isabelle
  imports Main "HOL-Library.AList"
begin

section \<open>Python values used by the two GitHub file systems\<close>

text \<open>
  The development embeds \<^verbatim>\<open>server2/new_github_file_system.py\<close> (the zipball-per-repository
  design) and \<^verbatim>\<open>server2/github_file_system.py\<close> (the earlier versioned-blob design).
  Python byte strings are \<^typ>\<open>string\<close>; exceptions are values of \<open>py_error\<close>; a call that
  may raise returns \<open>py_error + 'a\<close>, with \<open>Inl\<close> the exception.
\<close>

datatype fnf_arg =
    Message string          \<comment> \<open>\<^verbatim>\<open>FileNotFoundError('...')\<close> built from a message\<close>
  | FromKeyError string     \<comment> \<open>\<^verbatim>\<open>FileNotFoundError(error)\<close> wrapping the archive's KeyError for a name\<close>

datatype py_error =
    FileNotFoundError fnf_arg
  | KeyError string         \<comment> \<open>the key (archive entry name, JSON key) that is missing\<close>
  | IndexError
  | TypeError
  | DownloadError
  | OtherError string

subsection \<open>String operations\<close>

definition startswith :: "string \<Rightarrow> string \<Rightarrow> bool" where
  "startswith s p = (take (length p) s = p)"

text \<open>\<^verbatim>\<open>s.endswith('/')\<close>\<close>
definition endswith_slash :: "string \<Rightarrow> bool" where
  "endswith_slash s = (case rev s of [] \<Rightarrow> False | c # _ \<Rightarrow> c = CHR ''/'')"

text \<open>\<^verbatim>\<open>s.split('/')[0]\<close>: the text before the first separator (all of \<open>s\<close> when it has none).\<close>
definition split_first :: "string \<Rightarrow> string" where
  "split_first s = takeWhile (\<lambda>c. c \<noteq> CHR ''/'') s"

text \<open>\<^verbatim>\<open>s.split('/', 1)[1]\<close>: the text after the first separator; IndexError when \<open>s\<close> has none.\<close>
definition split_rest :: "string \<Rightarrow> py_error + string" where
  "split_rest s =
     (case dropWhile (\<lambda>c. c \<noteq> CHR ''/'') s of
        [] \<Rightarrow> Inl IndexError
      | _ # r \<Rightarrow> Inr r)"

text \<open>\<^verbatim>\<open>s[i:]\<close> for any integer \<open>i\<close>: a negative start counts from the end and is clamped at 0.\<close>
definition slice_from :: "int \<Rightarrow> string \<Rightarrow> string" where
  "slice_from i s =
     (if i < 0 then drop (nat (int (length s) + i)) s else drop (nat i) s)"

subsection \<open>Archives\<close>

text \<open>
  A parsed \<^verbatim>\<open>ZipFile\<close>: its entries in archive order, each a name with its bytes.
  \<^verbatim>\<open>namelist()\<close> lists the names in that order; \<^verbatim>\<open>read(name)\<close> looks the name up in the
  archive's name table, where a later entry of the same name replaces an earlier one, and
  raises KeyError for a name that is not there.
\<close>

type_synonym zipfile = "(string \<times> string) list"

definition namelist :: "zipfile \<Rightarrow> string list" where
  "namelist z = map fst z"

definition zip_read :: "zipfile \<Rightarrow> string \<Rightarrow> py_error + string" where
  "zip_read z name =
     (case map_of (rev z) name of
        None \<Rightarrow> Inl (KeyError name)
      | Some b \<Rightarrow> Inr b)"

subsection \<open>Versions, stat results, read results\<close>

text \<open>
  A version is the tree sha of \<^verbatim>\<open>commits/HEAD\<close>, or the integer 0 that the earlier design
  records when the probe yields no sha.
\<close>

datatype version = Sha string | Zero

text \<open>\<^verbatim>\<open>str(version)\<close>, where the version may be None.\<close>
fun str_version :: "version option \<Rightarrow> string" where
  "str_version (Some (Sha s)) = s"
| "str_version (Some Zero) = ''0''"
| "str_version None = ''None''"

text \<open>
  Modelled from the spec: the class \<^verbatim>\<open>StatInfo\<close> of \<^verbatim>\<open>file_system.py\<close>, which is not
  among the sources; the file systems construct it as \<^verbatim>\<open>StatInfo(version)\<close> and
  \<^verbatim>\<open>StatInfo(version, child_versions)\<close>. The spec: a version and an optional mapping from
  names to StatInfo. The version is what the version cache returned (None on a miss);
  \<open>child_versions\<close> is a dict, kept as an association list.
\<close>

datatype stat_info =
  StatInfo (version: "version option") (child_versions: "(string \<times> stat_info) list option")

text \<open>A value of the dict that Read returns: a directory listing or the bytes of a file.\<close>

datatype read_value = Listing "string list" | Bytes string

type_synonym reads = "(string \<times> read_value) list"

section \<open>The responses of the collaborators\<close>

text \<open>
  What the Fetcher and the zip parser answer during one operation.
  \<^item> \<open>commits_head\<close>: \<^verbatim>\<open>Fetch('commits/HEAD')\<close> followed by \<^verbatim>\<open>json.loads\<close>: \<open>Inl\<close> when the
    fetch or the decoding raises; \<open>Inr None\<close> when the decoded object has
    \<^verbatim>\<open>commit.tree\<close> but no entry \<^verbatim>\<open>sha\<close> in it; \<open>Inr (Some v)\<close> when that entry is the
    string \<open>v\<close>. Answers of another shape (no \<^verbatim>\<open>commit\<close>, no \<^verbatim>\<open>tree\<close>, a null sha) are
    not among the modelled ones.
  \<^item> \<open>zipball\<close>: what \<^verbatim>\<open>FetchAsync('zipball').Get().content\<close> gives: the payload, or the
    exception the handle raises when resolved.
  \<^item> \<open>ZipFile\<close>: \<^verbatim>\<open>ZipFile(StringIO(blob))\<close>; None stands for BadZipfile.
\<close>

record env =
  commits_head :: "py_error + version option"
  zipball :: "py_error + string"
  ZipFile :: "string \<Rightarrow> zipfile option"

section \<open>Deferred values\<close>

text \<open>
  Modelled from the spec: the class \<^verbatim>\<open>Future\<close> of \<^verbatim>\<open>future.py\<close>, which is imported by both
  file systems and is not among the sources. The spec (Deferred Value): constructed either
  with a concrete value or with a delegate; the first \<^verbatim>\<open>Get\<close> that has a delegate executes it
  exactly once and caches the outcome (success or failure); all later calls return the
  cached outcome without re-invoking the delegate.

  \<open>Resolved r\<close> is a future whose outcome \<open>r\<close> is known (\<^verbatim>\<open>Future(value=v)\<close> is
  \<open>Resolved (Inr v)\<close>); \<open>Delegate d\<close> is \<^verbatim>\<open>Future(delegate=d)\<close> before its first \<^verbatim>\<open>Get\<close>.
  \<open>future_Get run f w\<close> resolves \<open>f\<close> in the world \<open>w\<close>, where \<open>run d\<close> is \<^verbatim>\<open>d.Get()\<close>; it
  returns the outcome, the future as it is afterwards and the world afterwards.
\<close>

datatype ('d, 'a) future = Delegate 'd | Resolved "py_error + 'a"

text \<open>
  Modelled from the spec: \<^verbatim>\<open>Future.Get\<close>, the resolution of a Deferred Value. A resolved
  future returns its cached outcome and changes nothing; a future with a delegate runs
  the delegate, once, and is resolved with its outcome from then on.
\<close>

fun future_Get ::
  "('d \<Rightarrow> 'w \<Rightarrow> (py_error + 'a) \<times> 'w) \<Rightarrow> ('d, 'a) future \<Rightarrow> 'w
     \<Rightarrow> (py_error + 'a) \<times> ('d, 'a) future \<times> 'w" where
  "future_Get run (Resolved r) w = (r, Resolved r, w)"
| "future_Get run (Delegate d) w = (case run d w of (r, w') \<Rightarrow> (r, Resolved r, w'))"

section \<open>new_github_file_system.py\<close>

text \<open>
  The fields of \<^verbatim>\<open>GithubFileSystem\<close> that the operations use. \<open>blobstore\<close> is the
  \<^verbatim>\<open>GithubRepos\<close> namespace of the blob store and \<open>stat_cache\<close> the object store of category
  \<^verbatim>\<open>stat-cache\<close>. \<open>repo_zip\<close> is the value inside \<^verbatim>\<open>self._repo_zip\<close>, which this class only
  ever assigns as \<^verbatim>\<open>Future(value=...)\<close>. \<open>fetches\<close> records, newest last, the URLs asked of
  the Fetcher.
\<close>

record new_fs =
  repo_key :: string
  repo_url :: string
  blobstore :: "string \<rightharpoonup> string"
  stat_cache :: "string \<rightharpoonup> version"
  repo_zip :: "zipfile option"
  fetches :: "string list"

text \<open>
  The constructor: the two keys are built from the base URL, the owner and the
  repository; the stores are the ones handed in; there is no snapshot yet
  (\<^verbatim>\<open>Future(value=None)\<close>).
\<close>

definition init_fs ::
  "string \<Rightarrow> string \<Rightarrow> string \<Rightarrow> (string \<rightharpoonup> string) \<Rightarrow> (string \<rightharpoonup> version) \<Rightarrow> new_fs" where
  "init_fs base_url owner repo bs sc =
     \<lparr>repo_key = owner @ ''/'' @ repo,
      repo_url = base_url @ ''/'' @ owner @ ''/'' @ repo,
      blobstore = bs, stat_cache = sc, repo_zip = None, fetches = []\<rparr>"

definition GetNamelist :: "new_fs \<Rightarrow> string list" where
  "GetNamelist fs = (case repo_zip fs of None \<Rightarrow> [] | Some zipfile \<Rightarrow> namelist zipfile)"

definition GetVersion :: "new_fs \<Rightarrow> version option" where
  "GetVersion fs = stat_cache fs (repo_key fs)"

text \<open>
  \<^verbatim>\<open>json.loads(result.content)['commit']['tree']['sha']\<close>: on an answer without the entry
  \<^verbatim>\<open>sha\<close> the last subscript raises KeyError for that key. Every call is recorded in
  \<open>fetches\<close>, whatever its outcome.
\<close>

definition FetchLiveVersion :: "env \<Rightarrow> new_fs \<Rightarrow> (py_error + version) \<times> new_fs" where
  "FetchLiveVersion E fs =
     (let fs' = fs\<lparr>fetches := fetches fs @ [''commits/HEAD'']\<rparr> in
      case commits_head E of
        Inl e \<Rightarrow> (Inl e, fs')
      | Inr None \<Rightarrow> (Inl (KeyError ''sha''), fs')
      | Inr (Some v) \<Rightarrow> (Inr v, fs'))"

text \<open>
  \<^verbatim>\<open>persist_fetch(fetch)\<close>, the closure of Refresh, with the variables it captures: the
  outcome of the fetch handle and the live version (\<^verbatim>\<open>version\<close> in the source). On
  DownloadError the handler formats a two-place message with one argument, which raises
  TypeError; any other exception of the handle leaves the closure as it is. The blob, the
  snapshot and the version are assigned in the else branch of the parse only.
\<close>

datatype persist = PersistFetch "py_error + string" version

fun persist_fetch :: "env \<Rightarrow> persist \<Rightarrow> new_fs \<Rightarrow> (py_error + unit) \<times> new_fs" where
  "persist_fetch E (PersistFetch fetch live) fs =
     (case fetch of
        Inl DownloadError \<Rightarrow> (Inl TypeError, fs)
      | Inl e \<Rightarrow> (Inl e, fs)
      | Inr blob \<Rightarrow>
          (case ZipFile E blob of
             None \<Rightarrow> (Inr (), fs)
           | Some zipfile \<Rightarrow>
               (Inr (),
                fs\<lparr>blobstore := (blobstore fs)(repo_url fs @ ''/zipball'' \<mapsto> blob),
                   repo_zip := Some zipfile,
                   stat_cache := (stat_cache fs)(repo_key fs \<mapsto> live)\<rparr>)))"

text \<open>
  Refresh returns a future: with the delegate \<^verbatim>\<open>_Gettable(lambda: persist_fetch(fetch))\<close>
  when the live version differs from the entry \<^verbatim>\<open>'stat'\<close> of the stat cache (the fetch is
  started here, by FetchAsync), and the value None otherwise. An exception of the probe
  leaves Refresh.
\<close>

definition Refresh :: "env \<Rightarrow> new_fs \<Rightarrow> (py_error + (persist, unit) future) \<times> new_fs" where
  "Refresh E fs =
     (case FetchLiveVersion E fs of
        (Inl e, fs1) \<Rightarrow> (Inl e, fs1)
      | (Inr live, fs1) \<Rightarrow>
          if Some live \<noteq> stat_cache fs1 ''stat''
          then (Inr (Delegate (PersistFetch (zipball E) live)),
                fs1\<lparr>fetches := fetches fs1 @ [''zipball'']\<rparr>)
          else (Inr (Resolved (Inr ())), fs1))"

text \<open>
  The inner loop of Read for a directory path: of the names that start with \<open>full_path\<close>,
  those with no separator in \<^verbatim>\<open>f[len(full_path):-1]\<close> and other than \<open>full_path\<close>, each
  cut to \<^verbatim>\<open>f[len(full_path):]\<close>.
\<close>

definition trimmed_paths :: "string list \<Rightarrow> string \<Rightarrow> string list" where
  "trimmed_paths names full_path =
     map (\<lambda>f. drop (length full_path) f)
       (filter (\<lambda>f. CHR ''/'' \<notin> set (butlast (drop (length full_path) f)) \<and> f \<noteq> full_path)
          (filter (\<lambda>s. startswith s full_path) names))"

text \<open>
  The loop of Read over \<open>paths\<close>, filling the dict \<open>reads\<close>. A file path is read with
  \<^verbatim>\<open>self._repo_zip.Get().read(full_path)\<close>; a KeyError becomes FileNotFoundError, any other
  exception leaves the loop as it is.
\<close>

fun Read_loop :: "new_fs \<Rightarrow> string list \<Rightarrow> string \<Rightarrow> string list \<Rightarrow> reads \<Rightarrow> py_error + reads" where
  "Read_loop fs names prefix [] reads = Inr reads"
| "Read_loop fs names prefix (path # paths) reads =
     (let full_path = prefix @ path in
      if endswith_slash path
      then Read_loop fs names prefix paths
             (AList.update path (Listing (trimmed_paths names full_path)) reads)
      else (case (case repo_zip fs of
                    None \<Rightarrow> Inl (OtherError ''AttributeError'')
                  | Some zipfile \<Rightarrow> zip_read zipfile full_path) of
              Inl (KeyError k) \<Rightarrow> Inl (FileNotFoundError (FromKeyError k))
            | Inl e \<Rightarrow> Inl e
            | Inr b \<Rightarrow> Read_loop fs names prefix paths (AList.update path (Bytes b) reads)))"

definition Read :: "new_fs \<Rightarrow> string list \<Rightarrow> py_error + reads" where
  "Read fs paths =
     (case GetNamelist fs of
        [] \<Rightarrow> Inl (FileNotFoundError (Message ''No paths can be found, repository is empty''))
      | n0 # ns \<Rightarrow> Read_loop fs (n0 # ns) (split_first n0) paths [])"

text \<open>\<^verbatim>\<open>['/' + f.split('/', 1)[1] for f in names]\<close>: the first name without a separator raises.\<close>

fun trim_names :: "string list \<Rightarrow> py_error + string list" where
  "trim_names [] = Inr []"
| "trim_names (f # fs) =
     (case split_rest f of
        Inl e \<Rightarrow> Inl e
      | Inr r \<Rightarrow> (case trim_names fs of Inl e \<Rightarrow> Inl e | Inr ts \<Rightarrow> Inr ((CHR ''/'' # r) # ts)))"

text \<open>The loop of Stat that fills \<open>child_paths\<close>, over the names that start with \<open>path\<close>.\<close>

fun child_loop :: "version option \<Rightarrow> string \<Rightarrow> string list \<Rightarrow> (string \<times> stat_info) list
    \<Rightarrow> (string \<times> stat_info) list" where
  "child_loop v path [] child_paths = child_paths"
| "child_loop v path (f # fs) child_paths =
     (let filename = drop (length path) f in
      if CHR ''/'' \<notin> set filename \<and> f \<noteq> path
      then child_loop v path fs (AList.update filename (StatInfo v None) child_paths)
      else child_loop v path fs child_paths)"

definition Stat :: "new_fs \<Rightarrow> string \<Rightarrow> py_error + stat_info" where
  "Stat fs path =
     (case trim_names (GetNamelist fs) of
        Inl e \<Rightarrow> Inl e
      | Inr trimmed \<Rightarrow>
          if path \<notin> set trimmed
          then Inl (FileNotFoundError
                 (Message (''No stat found for '' @ [CHR 0x27] @ path @ [CHR 0x27])))
          else
            (let ver = GetVersion fs;
                 child_paths =
                   (if endswith_slash path
                    then child_loop ver path (filter (\<lambda>s. startswith s path) trimmed) []
                    else [])
             in Inr (StatInfo ver (if child_paths = [] then None else Some child_paths))))"

text \<open>\<^verbatim>\<open>fs.Refresh().Get()\<close>: Refresh, then the resolution of the future it returned.\<close>

definition Refresh_Get :: "env \<Rightarrow> new_fs \<Rightarrow> (py_error + unit) \<times> new_fs" where
  "Refresh_Get E fs =
     (case Refresh E fs of
        (Inl e, fs1) \<Rightarrow> (Inl e, fs1)
      | (Inr fut, fs1) \<Rightarrow>
          (case future_Get (persist_fetch E) fut fs1 of (r, fut', fs2) \<Rightarrow> (r, fs2)))"

section \<open>github_file_system.py\<close>

text \<open>
  The earlier \<^verbatim>\<open>GithubFileSystem\<close>. \<open>object_store\<close> is the \<^verbatim>\<open>GITHUB_STAT\<close> namespace of the
  object store (the version cache; the expiry of an entry is not part of the state: an
  expired entry is an absent one), \<open>blobstore_github\<close> the \<^verbatim>\<open>BLOBSTORE_GITHUB\<close> namespace
  of the blob store, \<open>fs_version\<close> is \<^verbatim>\<open>self._version\<close> and \<open>zip_file\<close> is
  \<^verbatim>\<open>self._zip_file\<close>. \<open>fetches_v1\<close> records, newest last, the URLs asked of the Fetcher.
\<close>

definition ZIP_KEY :: string where
  "ZIP_KEY = ''zipball''"

definition MakeKey :: "version option \<Rightarrow> string" where
  "MakeKey v = ZIP_KEY @ ''.'' @ str_version v"

text \<open>
  An \<^verbatim>\<open>_AsyncFetchFutureZip\<close>: the outcome of the handle that its constructor obtained
  from \<^verbatim>\<open>FetchAsync(ZIP_KEY)\<close>, and the two keys.
\<close>

datatype fetch_zip =
  AsyncFetchFutureZip (fetch: "py_error + string") (key_to_set: "version option")
    (key_to_delete: "version option")

record old_fs =
  object_store :: "string \<rightharpoonup> version"
  blobstore_github :: "string \<rightharpoonup> string"
  fs_version :: "version option"
  zip_file :: "(fetch_zip, zipfile option) future"
  fetches_v1 :: "string list"

text \<open>
  \<^verbatim>\<open>_AsyncFetchFutureZip.Get\<close>: only FileNotFoundError of the fetch is caught; the blob is
  stored, and the superseded key deleted, before the payload is parsed.
\<close>

fun AsyncFetchFutureZip_Get ::
  "env \<Rightarrow> fetch_zip \<Rightarrow> old_fs \<Rightarrow> (py_error + zipfile option) \<times> old_fs" where
  "AsyncFetchFutureZip_Get E (AsyncFetchFutureZip fetch_handle ks kd) fs =
     (case fetch_handle of
        Inl (FileNotFoundError a) \<Rightarrow> (Inr None, fs)
      | Inl e \<Rightarrow> (Inl e, fs)
      | Inr blob \<Rightarrow>
          (let fs1 = fs\<lparr>blobstore_github := (blobstore_github fs)(MakeKey ks \<mapsto> blob)\<rparr>;
               fs2 = (case kd of
                        None \<Rightarrow> fs1
                      | Some k \<Rightarrow>
                          fs1\<lparr>blobstore_github := (blobstore_github fs1)(MakeKey (Some k) := None)\<rparr>)
           in (Inr (ZipFile E blob), fs2)))"

text \<open>
  \<^verbatim>\<open>Stat\<close>: the cached version when the object store has one for \<open>path\<close>; otherwise the
  live probe, whose answer is cached (0 when the answer has no sha). An exception of the
  probe leaves Stat.
\<close>

definition Stat_v1 :: "env \<Rightarrow> old_fs \<Rightarrow> string \<Rightarrow> (py_error + stat_info) \<times> old_fs" where
  "Stat_v1 E fs path =
     (case object_store fs path of
        Some v \<Rightarrow> (Inr (StatInfo (Some v) None), fs)
      | None \<Rightarrow>
          (let fs1 = fs\<lparr>fetches_v1 := fetches_v1 fs @ [''commits/HEAD'']\<rparr> in
           case commits_head E of
             Inl e \<Rightarrow> (Inl e, fs1)
           | Inr (Some v) \<Rightarrow>
               (Inr (StatInfo (Some v) None),
                fs1\<lparr>object_store := (object_store fs1)(path \<mapsto> v)\<rparr>)
           | Inr None \<Rightarrow>
               (Inr (StatInfo (Some Zero) None),
                fs1\<lparr>object_store := (object_store fs1)(path \<mapsto> Zero)\<rparr>)))"

definition GetZip :: "env \<Rightarrow> old_fs \<Rightarrow> version option \<Rightarrow> old_fs" where
  "GetZip E fs v =
     (let fs1 =
        (case blobstore_github fs (MakeKey v) of
           Some blob \<Rightarrow>
             (case ZipFile E blob of
                Some zipfile \<Rightarrow> fs\<lparr>zip_file := Resolved (Inr (Some zipfile))\<rparr>
              | None \<Rightarrow>
                  fs\<lparr>blobstore_github := (blobstore_github fs)(MakeKey v := None),
                     zip_file := Resolved (Inr None)\<rparr>)
         | None \<Rightarrow>
             fs\<lparr>fetches_v1 := fetches_v1 fs @ [ZIP_KEY],
                zip_file := Delegate (AsyncFetchFutureZip (zipball E) v (fs_version fs))\<rparr>)
      in fs1\<lparr>fs_version := v\<rparr>)"

text \<open>\<^verbatim>\<open>self._zip_file.Get()\<close>: the future is resolved in place.\<close>

definition zip_file_Get :: "env \<Rightarrow> old_fs \<Rightarrow> (py_error + zipfile option) \<times> old_fs" where
  "zip_file_Get E fs =
     (case future_Get (AsyncFetchFutureZip_Get E) (zip_file fs) fs of
        (r, f', fs') \<Rightarrow> (r, fs'\<lparr>zip_file := f'\<rparr>))"

text \<open>\<^verbatim>\<open>zip_file.namelist()[0][:-1]\<close> raises IndexError on an archive without entries.\<close>

definition ReadFile :: "env \<Rightarrow> old_fs \<Rightarrow> string \<Rightarrow> (py_error + string) \<times> old_fs" where
  "ReadFile E fs path =
     (case zip_file_Get E fs of
        (Inl e, fs') \<Rightarrow> (Inl e, fs')
      | (Inr None, fs') \<Rightarrow> (Inr [], fs')
      | (Inr (Some zipfile), fs') \<Rightarrow>
          (case namelist zipfile of
             [] \<Rightarrow> (Inl IndexError, fs')
           | n0 # _ \<Rightarrow> (zip_read zipfile (butlast n0 @ path), fs')))"

text \<open>
  The three list comprehensions of \<^verbatim>\<open>_ListDir\<close>. The first (\<open>strip_root\<close>) cuts
  \<^verbatim>\<open>len(filenames[0]) - 1\<close> characters off every name; the second keeps what lies below
  \<open>path\<close> without \<open>path\<close> itself; the third keeps the names with no separator before their
  last character.
\<close>

definition strip_root :: "string list \<Rightarrow> string list" where
  "strip_root filenames =
     (case filenames of
        [] \<Rightarrow> []
      | n0 # _ \<Rightarrow> map (\<lambda>f. slice_from (int (length n0) - 1) f) filenames)"

definition ListDir_names :: "string list \<Rightarrow> string \<Rightarrow> string list" where
  "ListDir_names filenames path =
     (let filenames1 = strip_root filenames;
          filenames2 =
            map (\<lambda>f. drop (length path) f)
              (filter (\<lambda>f. f \<noteq> path \<and> startswith f path) filenames1)
      in filter (\<lambda>f. count_list (butlast f) (CHR ''/'') = 0) filenames2)"

definition ListDir :: "env \<Rightarrow> old_fs \<Rightarrow> string \<Rightarrow> (py_error + string list) \<times> old_fs" where
  "ListDir E fs path =
     (case zip_file_Get E fs of
        (Inl e, fs') \<Rightarrow> (Inl e, fs')
      | (Inr None, fs') \<Rightarrow> (Inr [], fs')
      | (Inr (Some zipfile), fs') \<Rightarrow> (Inr (ListDir_names (namelist zipfile) path), fs'))"

fun Read_v1_loop :: "env \<Rightarrow> old_fs \<Rightarrow> string list \<Rightarrow> reads \<Rightarrow> (py_error + reads) \<times> old_fs" where
  "Read_v1_loop E fs [] result = (Inr result, fs)"
| "Read_v1_loop E fs (path # paths) result =
     (if endswith_slash path
      then (case ListDir E fs path of
              (Inl e, fs') \<Rightarrow> (Inl e, fs')
            | (Inr l, fs') \<Rightarrow> Read_v1_loop E fs' paths (AList.update path (Listing l) result))
      else (case ReadFile E fs path of
              (Inl e, fs') \<Rightarrow> (Inl e, fs')
            | (Inr b, fs') \<Rightarrow> Read_v1_loop E fs' paths (AList.update path (Bytes b) result)))"

definition Read_v1 :: "env \<Rightarrow> old_fs \<Rightarrow> string list \<Rightarrow> (py_error + reads) \<times> old_fs" where
  "Read_v1 E fs paths =
     (case Stat_v1 E fs ZIP_KEY of
        (Inl e, fs1) \<Rightarrow> (Inl e, fs1)
      | (Inr si, fs1) \<Rightarrow>
          Read_v1_loop E
            (if version si \<noteq> fs_version fs1 then GetZip E fs1 (version si) else fs1)
            paths [])"

text \<open>
  The constructor: \<^verbatim>\<open>self._version = None\<close>, then \<^verbatim>\<open>self._GetZip(self.Stat(ZIP_KEY).version)\<close>,
  over the given object store and blob store. Stat does not read \<^verbatim>\<open>self._zip_file\<close>, which
  the constructor has not assigned yet; here it starts as the value None.
\<close>

definition init_v1 ::
  "env \<Rightarrow> (string \<rightharpoonup> version) \<Rightarrow> (string \<rightharpoonup> string) \<Rightarrow> py_error + old_fs" where
  "init_v1 E os bs =
     (let fs0 = \<lparr>object_store = os, blobstore_github = bs, fs_version = None,
                  zip_file = Resolved (Inr None), fetches_v1 = []\<rparr>
      in case Stat_v1 E fs0 ZIP_KEY of
           (Inl e, fs1) \<Rightarrow> Inl e
         | (Inr si, fs1) \<Rightarrow> Inr (GetZip E fs1 (version si)))"

section \<open>Fixtures\<close>

text \<open>
  Two archives as GitHub serves them: a root directory entry, then the files and
  directories of the checkout below it. The parser accepts the payloads \<open>blob1\<close> and
  \<open>blob2\<close> only, as these two archives.
\<close>

definition fixture_zip :: zipfile where
  "fixture_zip =
     [(''root-1/'', []), (''root-1/a.txt'', ''A''), (''root-1/dir/'', []),
      (''root-1/dir/b.txt'', ''B''), (''root-1/empty/'', [])]"

definition fixture_zip2 :: zipfile where
  "fixture_zip2 = [(''root-2/'', []), (''root-2/a.txt'', ''A2'')]"

definition fixture_ZipFile :: "string \<Rightarrow> zipfile option" where
  "fixture_ZipFile b =
     (if b = ''blob1'' then Some fixture_zip
      else if b = ''blob2'' then Some fixture_zip2 else None)"

text \<open>
  The collaborators at first (\<open>fixture_env1\<close>: live version \<open>v1\<close>, zipball \<open>blob1\<close>) and
  after a push (\<open>fixture_env\<close>: live version \<open>v2\<close>, zipball \<open>blob2\<close>).
\<close>

definition fixture_env1 :: env where
  "fixture_env1 =
     \<lparr>commits_head = Inr (Some (Sha ''v1'')), zipball = Inr ''blob1'',
      ZipFile = fixture_ZipFile\<rparr>"

definition fixture_env :: env where
  "fixture_env =
     \<lparr>commits_head = Inr (Some (Sha ''v2'')), zipball = Inr ''blob2'',
      ZipFile = fixture_ZipFile\<rparr>"

text \<open>
  \<open>fixture_fs\<close>: an instance of the zipball design that has \<open>fixture_zip\<close> installed under
  version \<open>v1\<close>; it is what a new instance is after one refresh against \<open>fixture_env1\<close>.
  \<open>fixture_fs_v1\<close>: an instance of the earlier design with \<open>fixture_zip\<close> installed and
  resolved; it is what a new instance is after one Read against \<open>fixture_env1\<close>.
\<close>

definition fixture_fs :: new_fs where
  "fixture_fs =
     \<lparr>repo_key = ''o/r'', repo_url = ''u/o/r'', blobstore = [''u/o/r/zipball'' \<mapsto> ''blob1''],
      stat_cache = [''o/r'' \<mapsto> Sha ''v1''], repo_zip = Some fixture_zip,
      fetches = [''commits/HEAD'', ''zipball'']\<rparr>"

definition fixture_fs_v1 :: old_fs where
  "fixture_fs_v1 =
     \<lparr>object_store = [''zipball'' \<mapsto> Sha ''v1''],
      blobstore_github = [''zipball.v1'' \<mapsto> ''blob1''],
      fs_version = Some (Sha ''v1''),
      zip_file = Resolved (Inr (Some fixture_zip)),
      fetches_v1 = [''commits/HEAD'', ''zipball'']\<rparr>"

text \<open>
  Two resolutions in a row, \<^verbatim>\<open>f.Get(); f.Get()\<close>: both outcomes, the future and the world
  afterwards. \<open>counted run\<close> is the delegate \<open>run\<close> with a counter of its invocations
  added to the world.
\<close>

definition resolve_twice ::
  "('d \<Rightarrow> 'w \<Rightarrow> (py_error + 'a) \<times> 'w) \<Rightarrow> ('d, 'a) future \<Rightarrow> 'w
     \<Rightarrow> (py_error + 'a) \<times> (py_error + 'a) \<times> ('d, 'a) future \<times> 'w" where
  "resolve_twice run f w =
     (case future_Get run f w of
        (r1, f1, w1) \<Rightarrow> (case future_Get run f1 w1 of (r2, f2, w2) \<Rightarrow> (r1, r2, f2, w2)))"

definition counted ::
  "('d \<Rightarrow> 'w \<Rightarrow> (py_error + 'a) \<times> 'w) \<Rightarrow> 'd \<Rightarrow> nat \<times> 'w \<Rightarrow> (py_error + 'a) \<times> (nat \<times> 'w)" where
  "counted run d cw =
     (case cw of (c, w) \<Rightarrow> (case run d w of (r, w') \<Rightarrow> (r, (Suc c, w'))))"

section \<open>Auxiliary facts\<close>

lemma update_entry:
  "(k', v') \<in> set (AList.update k v al) \<Longrightarrow> (k' = k \<and> v' = v) \<or> (k', v') \<in> set al"
  by (induction al) (auto split: if_splits)

lemma update_not_Nil: "AList.update k v al \<noteq> []"
  by (cases al) auto

lemma zip_read_present:
  assumes "n \<in> set (namelist z)"
  shows "\<exists>b. (n, b) \<in> set z \<and> zip_read z n = Inr b"
proof -
  from assms have "n \<in> fst ` set (rev z)" by (simp add: namelist_def)
  then obtain b where b: "map_of (rev z) n = Some b"
    by (metis map_of_eq_None_iff not_None_eq)
  then have "(n, b) \<in> set z" by (auto dest: map_of_SomeD)
  with b show ?thesis by (auto simp: zip_read_def)
qed

lemma zip_read_absent:
  assumes "n \<notin> set (namelist z)"
  shows "zip_read z n = Inl (KeyError n)"
proof -
  from assms have "n \<notin> fst ` set (rev z)" by (simp add: namelist_def)
  then have "map_of (rev z) n = None" by (simp add: map_of_eq_None_iff)
  then show ?thesis by (simp add: zip_read_def)
qed

subsection \<open>Stat\<close>

lemma Stat_version: "Stat fs p = Inr si \<Longrightarrow> version si = GetVersion fs"
  by (auto simp: Stat_def Let_def split: sum.splits if_splits)

lemma child_loop_entries:
  "(n, c) \<in> set (child_loop v path fs acc) \<Longrightarrow> (n, c) \<in> set acc \<or> c = StatInfo v None"
  by (induction fs arbitrary: acc) (auto simp: Let_def split: if_splits dest: update_entry)

lemma child_loop_Nil:
  "(child_loop v path fs acc = []) =
     (acc = [] \<and> (\<forall>f \<in> set fs. \<not> (CHR ''/'' \<notin> set (drop (length path) f) \<and> f \<noteq> path)))"
  by (induction fs arbitrary: acc) (auto simp: Let_def update_not_Nil)

subsection \<open>Read\<close>

lemma trimmed_paths_child:
  assumes "n \<in> set (trimmed_paths names fp)"
  shows "n \<noteq> [] \<and> CHR ''/'' \<notin> set (butlast n) \<and> fp @ n \<in> set names"
proof -
  from assms obtain f where f: "f \<in> set names" "startswith f fp" "f \<noteq> fp"
    "CHR ''/'' \<notin> set (butlast (drop (length fp) f))" "n = drop (length fp) f"
    by (auto simp: trimmed_paths_def)
  from f(2) have "take (length fp) f = fp" by (simp add: startswith_def)
  then have "fp @ drop (length fp) f = f" by (metis append_take_drop_id)
  with f(5) have eq: "fp @ n = f" by simp
  have "n \<noteq> []" using eq f(3) by auto
  with eq f(1,4,5) show ?thesis by simp
qed

lemma trimmed_paths_none:
  "\<forall>n \<in> set names. \<not> startswith n fp \<Longrightarrow> trimmed_paths names fp = []"
  by (simp add: trimmed_paths_def filter_empty_conv)

lemma Read_loop_listing:
  "Read_loop fs names prefix paths acc = Inr reads \<Longrightarrow> (p, Listing ns) \<in> set reads \<Longrightarrow>
     (p, Listing ns) \<in> set acc \<or> (endswith_slash p \<and> ns = trimmed_paths names (prefix @ p))"
proof (induction paths arbitrary: acc)
  case Nil
  then show ?case by simp
next
  case (Cons path paths)
  show ?case
  proof (cases "endswith_slash path")
    case True
    with Cons.prems(1) have
      "Read_loop fs names prefix paths
         (AList.update path (Listing (trimmed_paths names (prefix @ path))) acc) = Inr reads"
      by (simp add: Let_def)
    from Cons.IH[OF this Cons.prems(2)] True show ?thesis
      by (auto dest: update_entry)
  next
    case False
    with Cons.prems(1) obtain b where
      "Read_loop fs names prefix paths (AList.update path (Bytes b) acc) = Inr reads"
      by (auto simp: Let_def split: option.splits sum.splits py_error.splits)
    from Cons.IH[OF this Cons.prems(2)] show ?thesis
      by (auto dest: update_entry)
  qed
qed

lemma Read_loop_missing:
  assumes "repo_zip fs = Some z"
    and "\<exists>p \<in> set paths. \<not> endswith_slash p \<and> prefix @ p \<notin> set (namelist z)"
  shows "\<exists>pre q post. paths = pre @ q # post \<and>
           (\<forall>r \<in> set pre. endswith_slash r \<or> prefix @ r \<in> set (namelist z)) \<and>
           \<not> endswith_slash q \<and> prefix @ q \<notin> set (namelist z) \<and>
           Read_loop fs names prefix paths acc = Inl (FileNotFoundError (FromKeyError (prefix @ q)))"
  using assms(2)
proof (induction paths arbitrary: acc)
  case Nil
  then show ?case by simp
next
  case (Cons path paths)
  let ?ok = "endswith_slash path \<or> prefix @ path \<in> set (namelist z)"
  show ?case
  proof (cases ?ok)
    case True
    with Cons.prems have rest: "\<exists>p \<in> set paths. \<not> endswith_slash p \<and> prefix @ p \<notin> set (namelist z)"
      by auto
    obtain acc' where step: "Read_loop fs names prefix (path # paths) acc =
        Read_loop fs names prefix paths acc'"
    proof (cases "endswith_slash path")
      case True
      then show ?thesis using that by (simp add: Let_def)
    next
      case False
      with True have "prefix @ path \<in> set (namelist z)" by simp
      then obtain b where "zip_read z (prefix @ path) = Inr b"
        using zip_read_present by blast
      with False assms(1) show ?thesis using that by (simp add: Let_def)
    qed
    from Cons.IH[OF rest, of acc'] obtain pre q post where
      IH: "paths = pre @ q # post"
        "\<forall>r \<in> set pre. endswith_slash r \<or> prefix @ r \<in> set (namelist z)"
        "\<not> endswith_slash q" "prefix @ q \<notin> set (namelist z)"
        "Read_loop fs names prefix paths acc' = Inl (FileNotFoundError (FromKeyError (prefix @ q)))"
      by blast
    have "path # paths = (path # pre) @ q # post" using IH(1) by simp
    moreover have "\<forall>r \<in> set (path # pre). endswith_slash r \<or> prefix @ r \<in> set (namelist z)"
      using IH(2) True by simp
    ultimately show ?thesis using IH(3,4,5) step by metis
  next
    case False
    then have miss: "\<not> endswith_slash path" "prefix @ path \<notin> set (namelist z)" by simp_all
    then have "zip_read z (prefix @ path) = Inl (KeyError (prefix @ path))"
      using zip_read_absent by blast
    with miss assms(1) have
      "Read_loop fs names prefix (path # paths) acc =
         Inl (FileNotFoundError (FromKeyError (prefix @ path)))"
      by (simp add: Let_def)
    moreover have "path # paths = [] @ path # paths" by simp
    ultimately show ?thesis using miss by (metis empty_iff list.set(1))
  qed
qed

lemma Read_file_entry:
  assumes "repo_zip fs = Some z" and "namelist z = n0 # ns" and "\<not> endswith_slash p"
    and "split_first n0 @ p \<in> set (namelist z)"
  shows "\<exists>b. (split_first n0 @ p, b) \<in> set z \<and> zip_read z (split_first n0 @ p) = Inr b \<and>
              Read fs [p] = Inr [(p, Bytes b)]"
proof -
  from zip_read_present[OF assms(4)] obtain b where
    b: "(split_first n0 @ p, b) \<in> set z" "zip_read z (split_first n0 @ p) = Inr b"
    by blast
  have "Read fs [p] = Inr [(p, Bytes b)]"
    using assms(1,2,3) b(2) by (simp add: Read_def GetNamelist_def Let_def)
  with b show ?thesis by blast
qed

lemma Read_depends_on_snapshot:
  assumes "repo_zip fs' = repo_zip fs"
  shows "Read_loop fs' names prefix paths acc = Read_loop fs names prefix paths acc"
proof (induction paths arbitrary: acc)
  case Nil
  show ?case by simp
next
  case (Cons path paths)
  show ?case
  proof (cases "endswith_slash path")
    case True
    then show ?thesis by (simp add: Let_def Cons.IH)
  next
    case False
    let ?r = "case repo_zip fs of
                None \<Rightarrow> Inl (OtherError ''AttributeError'')
              | Some zipfile \<Rightarrow> zip_read zipfile (prefix @ path)"
    show ?thesis
    proof (cases ?r)
      case (Inl e)
      with False show ?thesis by (simp add: Let_def assms)
    next
      case (Inr b)
      with False show ?thesis by (simp add: Let_def assms Cons.IH)
    qed
  qed
qed

lemma Read_same_snapshot:
  assumes "repo_zip fs' = repo_zip fs"
  shows "Read fs' paths = Read fs paths"
proof (cases "GetNamelist fs")
  case Nil
  then show ?thesis using assms by (simp add: Read_def GetNamelist_def)
next
  case (Cons n0 ns)
  then have "GetNamelist fs' = n0 # ns" using assms by (simp add: GetNamelist_def)
  with Cons show ?thesis
    using Read_depends_on_snapshot[OF assms, of "n0 # ns" "split_first n0" paths "[]"]
    by (simp add: Read_def)
qed

subsection \<open>The earlier design\<close>

lemma zip_file_Get_Resolved:
  "zip_file fs = Resolved r \<Longrightarrow> zip_file_Get E fs = (r, fs)"
  by (cases fs) (simp add: zip_file_Get_def)

lemma Stat_v1_cached:
  "object_store fs p = Some v \<Longrightarrow> Stat_v1 E fs p = (Inr (StatInfo (Some v) None), fs)"
  by (simp add: Stat_v1_def)

lemma Read_v1_cached:
  "object_store fs ZIP_KEY = Some v \<Longrightarrow> fs_version fs = Some v \<Longrightarrow>
     Read_v1 E fs paths = Read_v1_loop E fs paths []"
  by (simp add: Read_v1_def Stat_v1_cached)

lemma ListDir_names_child:
  assumes "n \<in> set (ListDir_names names p)"
  shows "n \<noteq> [] \<and> CHR ''/'' \<notin> set (butlast n) \<and> p @ n \<in> set (strip_root names)"
proof -
  from assms obtain f where f: "f \<in> set (strip_root names)" "f \<noteq> p" "startswith f p"
    "n = drop (length p) f" "count_list (butlast n) (CHR ''/'') = 0"
    by (auto simp: ListDir_names_def Let_def)
  from f(3) have "take (length p) f = p" by (simp add: startswith_def)
  then have "p @ drop (length p) f = f" by (metis append_take_drop_id)
  with f(4) have eq: "p @ n = f" by simp
  have "n \<noteq> []" using eq f(2) by auto
  moreover have "CHR ''/'' \<notin> set (butlast n)" using f(5) by (simp add: count_list_0_iff)
  ultimately show ?thesis using eq f(1) by simp
qed

lemma ListDir_names_none:
  "\<forall>f \<in> set (strip_root names). \<not> startswith f p \<Longrightarrow> ListDir_names names p = []"
  by (simp add: ListDir_names_def Let_def filter_empty_conv)

lemma Read_v1_loop_no_snapshot:
  assumes "zip_file fs = Resolved (Inr None)"
  shows "Read_v1_loop E fs paths acc =
           (Inr (foldl (\<lambda>result p.
                    AList.update p (if endswith_slash p then Listing [] else Bytes []) result)
                   acc paths), fs)"
proof (induction paths arbitrary: acc)
  case Nil
  then show ?case by simp
next
  case (Cons path paths)
  have g: "zip_file_Get E fs = (Inr None, fs)" using assms by (rule zip_file_Get_Resolved)
  then have "ReadFile E fs path = (Inr [], fs)" "ListDir E fs path = (Inr [], fs)"
    by (simp_all add: ReadFile_def ListDir_def)
  then show ?case using Cons.IH by simp
qed

lemma Read_v1_file_entry:
  assumes "zip_file ofs = Resolved (Inr (Some z))" and "object_store ofs ZIP_KEY = Some v"
    and "fs_version ofs = Some v" and "namelist z = n0 # ns" and "\<not> endswith_slash p"
    and "butlast n0 @ p \<in> set (namelist z)"
  shows "\<exists>b. (butlast n0 @ p, b) \<in> set z \<and> zip_read z (butlast n0 @ p) = Inr b \<and>
           Read_v1 E ofs [p] = (Inr [(p, Bytes b)], ofs)"
proof -
  from zip_read_present[OF assms(6)] obtain b where
    b: "(butlast n0 @ p, b) \<in> set z" "zip_read z (butlast n0 @ p) = Inr b" by blast
  have "zip_file_Get E ofs = (Inr (Some z), ofs)" using assms(1) by (rule zip_file_Get_Resolved)
  then have "ReadFile E ofs p = (Inr b, ofs)" using assms(4) b(2) by (simp add: ReadFile_def)
  then have "Read_v1_loop E ofs [p] [] = (Inr [(p, Bytes b)], ofs)" using assms(5) by simp
  then have "Read_v1 E ofs [p] = (Inr [(p, Bytes b)], ofs)"
    using Read_v1_cached[OF assms(2,3)] by simp
  with b show ?thesis by blast
qed

lemma Read_listing_child:
  assumes "Read fs paths = Inr reads" and "(p, Listing ls) \<in> set reads" and "n \<in> set ls"
  shows "endswith_slash p \<and> n \<noteq> [] \<and> CHR ''/'' \<notin> set (butlast n) \<and>
      (\<exists>n0 ns. GetNamelist fs = n0 # ns \<and> split_first n0 @ p @ n \<in> set (n0 # ns))"
proof -
  from assms(1) obtain n0 ns where names: "GetNamelist fs = n0 # ns"
    and loop: "Read_loop fs (n0 # ns) (split_first n0) paths [] = Inr reads"
    by (auto simp: Read_def split: list.splits)
  from Read_loop_listing[OF loop assms(2)] have
    d: "endswith_slash p" and ls: "ls = trimmed_paths (n0 # ns) (split_first n0 @ p)"
    by simp_all
  from assms(3) ls have "n \<in> set (trimmed_paths (n0 # ns) (split_first n0 @ p))" by simp
  from trimmed_paths_child[OF this] d names show ?thesis by simp
qed

lemma ListDir_child:
  assumes "ListDir E ofs p = (Inr ls, ofs')" and "n \<in> set ls"
  shows "n \<noteq> [] \<and> CHR ''/'' \<notin> set (butlast n) \<and>
      (\<exists>z. zip_file_Get E ofs = (Inr (Some z), ofs') \<and> p @ n \<in> set (strip_root (namelist z)))"
proof -
  obtain r fs1 where g: "zip_file_Get E ofs = (r, fs1)" by (cases "zip_file_Get E ofs")
  from assms g obtain z where z: "r = Inr (Some z)" "fs1 = ofs'" "ls = ListDir_names (namelist z) p"
    by (auto simp: ListDir_def split: sum.splits option.splits)
  from assms(2) z(3) have "n \<in> set (ListDir_names (namelist z) p)" by simp
  from ListDir_names_child[OF this] g z(1,2) show ?thesis by simp
qed

lemma fixture_names:
  "namelist fixture_zip =
     ''root-1/'' # [''root-1/a.txt'', ''root-1/dir/'', ''root-1/dir/b.txt'', ''root-1/empty/'']"
  by (simp add: namelist_def fixture_zip_def)

subsection \<open>Refresh\<close>

lemma persist_fetch_cases:
  assumes "persist_fetch E (PersistFetch f v) fs = (r, fs')"
  shows "fs' = fs \<or>
         (\<exists>blob z. f = Inr blob \<and> ZipFile E blob = Some z \<and>
            fs' = fs\<lparr>blobstore := (blobstore fs)(repo_url fs @ ''/zipball'' \<mapsto> blob),
                      repo_zip := Some z,
                      stat_cache := (stat_cache fs)(repo_key fs \<mapsto> v)\<rparr>)"
  using assms by (auto split: sum.splits py_error.splits option.splits)

lemma persist_fetch_unparsable:
  "ZipFile E blob = None \<Longrightarrow> persist_fetch E (PersistFetch (Inr blob) v) fs = (Inr (), fs)"
  by simp

lemma persist_fetch_failed_fetch:
  "snd (persist_fetch E (PersistFetch (Inl e) v) fs) = fs"
  by (cases e) simp_all

lemma FetchLiveVersion_ok:
  "commits_head E = Inr (Some v) \<Longrightarrow>
     FetchLiveVersion E fs = (Inr v, fs\<lparr>fetches := fetches fs @ [''commits/HEAD'']\<rparr>)"
  by (simp add: FetchLiveVersion_def Let_def)

lemma FetchLiveVersion_fails:
  "(\<exists>e. commits_head E = Inl e) \<or> commits_head E = Inr None \<Longrightarrow>
     \<exists>e. FetchLiveVersion E fs = (Inl e, fs\<lparr>fetches := fetches fs @ [''commits/HEAD'']\<rparr>)"
  by (auto simp: FetchLiveVersion_def Let_def)

lemma FetchLiveVersion_probes:
  "fetches (snd (FetchLiveVersion E fs)) = fetches fs @ [''commits/HEAD'']"
  by (simp add: FetchLiveVersion_def Let_def split: sum.splits option.splits)

lemma Refresh_probes:
  "\<exists>rest. fetches (snd (Refresh E fs)) = fetches fs @ ''commits/HEAD'' # rest"
proof -
  obtain r fs1 where l: "FetchLiveVersion E fs = (r, fs1)" by (cases "FetchLiveVersion E fs")
  with FetchLiveVersion_probes[of E fs] have f1: "fetches fs1 = fetches fs @ [''commits/HEAD'']"
    by simp
  show ?thesis
  proof (cases r)
    case (Inl e)
    with l f1 show ?thesis by (simp add: Refresh_def)
  next
    case (Inr v)
    with l f1 show ?thesis by (simp add: Refresh_def)
  qed
qed

lemma Refresh_Get_failure:
  assumes "(\<exists>e. commits_head E = Inl e) \<or> commits_head E = Inr None \<or> (\<exists>e. zipball E = Inl e) \<or>
      (\<exists>blob. zipball E = Inr blob \<and> ZipFile E blob = None)"
  shows "\<exists>log. snd (Refresh_Get E fs) = fs\<lparr>fetches := log\<rparr>"
proof -
  let ?fs1 = "fs\<lparr>fetches := fetches fs @ [''commits/HEAD'']\<rparr>"
  show ?thesis
  proof (cases "(\<exists>e. commits_head E = Inl e) \<or> commits_head E = Inr None")
    case True
    from FetchLiveVersion_fails[OF this] obtain e where
      "FetchLiveVersion E fs = (Inl e, ?fs1)" by blast
    then have "snd (Refresh_Get E fs) = ?fs1" by (simp add: Refresh_Get_def Refresh_def)
    then show ?thesis by blast
  next
    case False
    then obtain v where v: "commits_head E = Inr (Some v)"
      by (cases "commits_head E") auto
    have live: "FetchLiveVersion E fs = (Inr v, ?fs1)" using v by (rule FetchLiveVersion_ok)
    show ?thesis
    proof (cases "Some v \<noteq> stat_cache fs ''stat''")
      case same: False
      with live have "snd (Refresh_Get E fs) = ?fs1" by (simp add: Refresh_Get_def Refresh_def)
      then show ?thesis by blast
    next
      case True
      let ?fs2 = "fs\<lparr>fetches := fetches fs @ [''commits/HEAD''] @ [''zipball'']\<rparr>"
      have R: "snd (Refresh_Get E fs) = snd (persist_fetch E (PersistFetch (zipball E) v) ?fs2)"
        using True live by (simp add: Refresh_Get_def Refresh_def split: prod.splits)
      from assms False have "(\<exists>e. zipball E = Inl e) \<or>
          (\<exists>blob. zipball E = Inr blob \<and> ZipFile E blob = None)" by blast
      then have "snd (persist_fetch E (PersistFetch (zipball E) v) ?fs2) = ?fs2"
      proof
        assume "\<exists>e. zipball E = Inl e"
        then show ?thesis using persist_fetch_failed_fetch by auto
      next
        assume "\<exists>blob. zipball E = Inr blob \<and> ZipFile E blob = None"
        then show ?thesis using persist_fetch_unparsable by auto
      qed
      with R have "snd (Refresh_Get E fs) = ?fs2" by simp
      then show ?thesis by blast
    qed
  qed
qed

subsection \<open>Deferred values\<close>

lemma future_Get_again:
  "future_Get run f w = (r, f', w') \<Longrightarrow> future_Get run f' w' = (r, f', w')"
  by (cases f) (auto split: prod.splits)

lemma resolve_twice_Delegate:
  "resolve_twice run (Delegate d) w =
     (fst (run d w), fst (run d w), Resolved (fst (run d w)), snd (run d w))"
  by (simp add: resolve_twice_def split: prod.splits)

lemma counted_once:
  "fst (snd (snd (snd (resolve_twice (counted run) (Delegate d) (c, w))))) = Suc c"
  by (simp add: resolve_twice_def counted_def split: prod.splits)

subsection \<open>What the earlier design asks of the Fetcher\<close>

lemma GetZip_fetches:
  "fetches_v1 (GetZip E fs v) =
     fetches_v1 fs @ (if blobstore_github fs (MakeKey v) = None then [ZIP_KEY] else [])"
  by (simp add: GetZip_def Let_def split: option.splits)

lemma AsyncFetch_fetches:
  "AsyncFetchFutureZip_Get E d fs = (r, fs') \<Longrightarrow> fetches_v1 fs' = fetches_v1 fs"
  by (cases d) (auto simp: Let_def split: sum.splits py_error.splits option.splits)

lemma zip_file_Get_fetches:
  "zip_file_Get E fs = (r, fs') \<Longrightarrow> fetches_v1 fs' = fetches_v1 fs"
  by (cases "zip_file fs") (auto simp: zip_file_Get_def split: prod.splits dest: AsyncFetch_fetches)

lemma ReadFile_fetches:
  "ReadFile E fs p = (r, fs') \<Longrightarrow> fetches_v1 fs' = fetches_v1 fs"
  by (auto simp: ReadFile_def split: prod.splits sum.splits option.splits list.splits
      dest: zip_file_Get_fetches)

lemma ListDir_fetches:
  "ListDir E fs p = (r, fs') \<Longrightarrow> fetches_v1 fs' = fetches_v1 fs"
  by (auto simp: ListDir_def split: prod.splits sum.splits option.splits
      dest: zip_file_Get_fetches)

lemma Read_v1_loop_fetches:
  "Read_v1_loop E fs paths acc = (r, fs') \<Longrightarrow> fetches_v1 fs' = fetches_v1 fs"
proof (induction paths arbitrary: fs acc)
  case Nil
  then show ?case by simp
next
  case (Cons path paths)
  show ?case
  proof (cases "endswith_slash path")
    case True
    obtain r1 fs1 where l: "ListDir E fs path = (r1, fs1)" by (cases "ListDir E fs path")
    then have f1: "fetches_v1 fs1 = fetches_v1 fs" by (rule ListDir_fetches)
    show ?thesis
    proof (cases r1)
      case (Inl e)
      with Cons.prems True l f1 show ?thesis by simp
    next
      case (Inr ns)
      with Cons.prems True l have
        "Read_v1_loop E fs1 paths (AList.update path (Listing ns) acc) = (r, fs')" by simp
      from Cons.IH[OF this] f1 show ?thesis by simp
    qed
  next
    case False
    obtain r1 fs1 where l: "ReadFile E fs path = (r1, fs1)" by (cases "ReadFile E fs path")
    then have f1: "fetches_v1 fs1 = fetches_v1 fs" by (rule ReadFile_fetches)
    show ?thesis
    proof (cases r1)
      case (Inl e)
      with Cons.prems False l f1 show ?thesis by simp
    next
      case (Inr b)
      with Cons.prems False l have
        "Read_v1_loop E fs1 paths (AList.update path (Bytes b) acc) = (r, fs')" by simp
      from Cons.IH[OF this] f1 show ?thesis by simp
    qed
  qed
qed

lemma Read_v1_loop_fetches_snd:
  "fetches_v1 (snd (Read_v1_loop E fs paths acc)) = fetches_v1 fs"
  using Read_v1_loop_fetches[of E fs paths acc] by (cases "Read_v1_loop E fs paths acc") simp

lemma Read_v1_fetches_hit:
  assumes "object_store fs ZIP_KEY = Some v"
  shows "fetches_v1 (snd (Read_v1 E fs paths)) =
           fetches_v1 fs @
           (if Some v \<noteq> fs_version fs \<and> blobstore_github fs (MakeKey (Some v)) = None
            then [ZIP_KEY] else [])"
  using assms
  by (simp add: Read_v1_def Stat_v1_cached Read_v1_loop_fetches_snd GetZip_fetches)

lemma Read_v1_fetches_miss:
  assumes "object_store fs ZIP_KEY = None" and "commits_head E = Inr vo"
  shows "fetches_v1 (snd (Read_v1 E fs paths)) =
           fetches_v1 fs @ ''commits/HEAD'' #
           (if Some (case vo of None \<Rightarrow> Zero | Some v' \<Rightarrow> v') \<noteq> fs_version fs \<and>
               blobstore_github fs (MakeKey (Some (case vo of None \<Rightarrow> Zero | Some v' \<Rightarrow> v'))) = None
            then [ZIP_KEY] else [])"
proof (cases vo)
  case None
  with assms show ?thesis
    by (simp add: Read_v1_def Stat_v1_def Let_def Read_v1_loop_fetches_snd GetZip_fetches)
next
  case (Some v)
  with assms show ?thesis
    by (simp add: Read_v1_def Stat_v1_def Let_def Read_v1_loop_fetches_snd GetZip_fetches)
qed

lemma Read_v1_probe_raises:
  assumes "object_store fs ZIP_KEY = None" and "commits_head E = Inl e"
  shows "Read_v1 E fs paths = (Inl e, fs\<lparr>fetches_v1 := fetches_v1 fs @ [''commits/HEAD'']\<rparr>)"
  using assms by (simp add: Read_v1_def Stat_v1_def Let_def)

subsection \<open>The fixtures are reachable; some evaluations\<close>

lemma fixture_fs_reachable:
  "snd (Refresh_Get fixture_env1 (init_fs ''u'' ''o'' ''r'' Map.empty Map.empty)) = fixture_fs"
  by (simp add: Refresh_Get_def Refresh_def FetchLiveVersion_def init_fs_def fixture_env1_def
      fixture_ZipFile_def fixture_fs_def)

lemma fixture_fs_v1_reachable:
  "(case init_v1 fixture_env1 Map.empty Map.empty of
      Inl e \<Rightarrow> False
    | Inr fs0 \<Rightarrow>
        Read_v1 fixture_env1 fs0 [''/a.txt''] = (Inr [(''/a.txt'', Bytes ''A'')], fixture_fs_v1))"
  by (simp add: init_v1_def Stat_v1_def GetZip_def Read_v1_def ReadFile_def zip_file_Get_def
      MakeKey_def ZIP_KEY_def Let_def fixture_env1_def fixture_ZipFile_def fixture_fs_v1_def
      endswith_slash_def namelist_def zip_read_def fixture_zip_def)

lemma Refresh_same_version_fetches_again:
  "stat_cache fixture_fs (repo_key fixture_fs) = Some (Sha ''v1'') \<and>
   commits_head fixture_env1 = Inr (Some (Sha ''v1'')) \<and>
   fetches (snd (Refresh fixture_env1 fixture_fs)) = fetches fixture_fs @ [''commits/HEAD'', ''zipball'']"
  by (simp add: Refresh_def FetchLiveVersion_def fixture_env1_def fixture_fs_def)

lemma Read_v1_missing_entry_KeyError:
  "fst (Read_v1 fixture_env fixture_fs_v1 [''/a.txt'', ''/zz'']) = Inl (KeyError ''root-1/zz'')"
  by code_simp

lemma persist_fetch_DownloadError:
  "persist_fetch E (PersistFetch (Inl DownloadError) v) fs = (Inl TypeError, fs)"
  by simp

lemma Stat_omits_subdirectories:
  "Stat (fixture_fs\<lparr>repo_zip := Some [(''r/'', []), (''r/dir/'', []), (''r/dir/sub/'', [])]\<rparr>)
     ''/dir/'' = Inr (StatInfo (Some (Sha ''v1'')) None) \<and>
   Read (fixture_fs\<lparr>repo_zip := Some [(''r/'', []), (''r/dir/'', []), (''r/dir/sub/'', [])]\<rparr>)
     [''/dir/''] = Inr [(''/dir/'', Listing [''sub/''])]"
  by code_simp

section \<open>Properties of Stat\<close>

text \<open>
  C6. Two paths stated against the same instance (the same snapshot and version cache)
  report the same version, and every StatInfo among the child versions of a stated
  directory carries that version too.
\<close>

theorem C6_stat_single_version:
  assumes "Stat fs p = Inr sp" and "Stat fs q = Inr sq"
  shows "version sp = version sq \<and>
         (\<forall>cv n c. child_versions sp = Some cv \<longrightarrow> (n, c) \<in> set cv \<longrightarrow> version c = version sp)"
proof -
  have vp: "version sp = GetVersion fs" using assms(1) by (rule Stat_version)
  have vq: "version sq = GetVersion fs" using assms(2) by (rule Stat_version)
  have "version c = version sp" if "child_versions sp = Some cv" "(n, c) \<in> set cv" for cv n c
  proof -
    from assms(1) that(1) obtain trimmed where
      cv: "cv = child_loop (GetVersion fs) p (filter (\<lambda>s. startswith s p) trimmed) []"
      by (auto simp: Stat_def Let_def split: sum.splits if_splits)
    from that(2) cv have "c = StatInfo (GetVersion fs) None"
      using child_loop_entries by fastforce
    then show ?thesis using vp by simp
  qed
  then show ?thesis using vp vq by auto
qed

theorem C6_stat_single_version_witness:
  "Stat fixture_fs ''/dir/'' =
     Inr (StatInfo (Some (Sha ''v1'')) (Some [(''b.txt'', StatInfo (Some (Sha ''v1'')) None)])) \<and>
   Stat fixture_fs ''/a.txt'' = Inr (StatInfo (Some (Sha ''v1'')) None) \<and>
   version (StatInfo (Some (Sha ''v1'')) (Some [(''b.txt'', StatInfo (Some (Sha ''v1'')) None)])) =
     version (StatInfo (Some (Sha ''v1'')) None) \<and>
   version (StatInfo (Some (Sha ''v1'')) None) = Some (Sha ''v1'')"
proof -
  have d: "Stat fixture_fs ''/dir/'' =
     Inr (StatInfo (Some (Sha ''v1'')) (Some [(''b.txt'', StatInfo (Some (Sha ''v1'')) None)]))"
    by code_simp
  have a: "Stat fixture_fs ''/a.txt'' = Inr (StatInfo (Some (Sha ''v1'')) None)"
    by code_simp
  from C6_stat_single_version [OF d a] d a show ?thesis by simp
qed

text \<open>
  C8, as stated, fails: an empty archive directory is accepted by Stat and gets no child
  versions, because the empty dict is turned into None.
\<close>

theorem C8_empty_directory_counterexample:
  "Stat fixture_fs ''/empty/'' = Inr (StatInfo (Some (Sha ''v1'')) None) \<and>
   endswith_slash ''/empty/'' \<and>
   child_versions (StatInfo (Some (Sha ''v1'')) None) = None"
  by code_simp

text \<open>
  C8, amended. For a path that Stat accepts: the child versions are present only if the
  path ends with the separator; they are present when the path ends with the separator
  and the snapshot has a file directly below it (another logical name that starts with
  the path and has no separator after it); and they are None when the path ends with the
  separator and no other logical name starts with it (an empty directory). What Stat
  reports for a directory that holds subdirectories only is not part of the statement.
\<close>

theorem C8_child_versions_present:
  assumes "Stat fs p = Inr si"
  shows "(child_versions si \<noteq> None \<longrightarrow> endswith_slash p) \<and>
         (endswith_slash p \<longrightarrow>
            (\<exists>trimmed f. trim_names (GetNamelist fs) = Inr trimmed \<and> f \<in> set trimmed \<and>
               startswith f p \<and> f \<noteq> p \<and> CHR ''/'' \<notin> set (drop (length p) f)) \<longrightarrow>
            child_versions si \<noteq> None) \<and>
         (endswith_slash p \<longrightarrow>
            (\<forall>trimmed f. trim_names (GetNamelist fs) = Inr trimmed \<longrightarrow> f \<in> set trimmed \<longrightarrow>
               startswith f p \<longrightarrow> f = p) \<longrightarrow>
            child_versions si = None)"
proof -
  from assms obtain trimmed where t: "trim_names (GetNamelist fs) = Inr trimmed"
    and inn: "p \<in> set trimmed"
    by (auto simp: Stat_def split: sum.splits if_splits)
  let ?cp = "if endswith_slash p
             then child_loop (GetVersion fs) p (filter (\<lambda>s. startswith s p) trimmed) []
             else []"
  have cv: "child_versions si = (if ?cp = [] then None else Some ?cp)"
    using assms t inn by (auto simp: Stat_def Let_def)
  have a: "child_versions si \<noteq> None \<longrightarrow> endswith_slash p"
    using cv by (auto split: if_splits)
  have b: "child_versions si \<noteq> None"
    if "endswith_slash p"
      and "\<exists>trimmed f. trim_names (GetNamelist fs) = Inr trimmed \<and> f \<in> set trimmed \<and>
             startswith f p \<and> f \<noteq> p \<and> CHR ''/'' \<notin> set (drop (length p) f)"
  proof -
    from that(2) t obtain f where "f \<in> set trimmed" "startswith f p" "f \<noteq> p"
      "CHR ''/'' \<notin> set (drop (length p) f)"
      by auto
    then have "?cp \<noteq> []" using that(1) by (auto simp: child_loop_Nil)
    with cv show ?thesis by simp
  qed
  have c: "child_versions si = None"
    if "endswith_slash p"
      and "\<forall>trimmed f. trim_names (GetNamelist fs) = Inr trimmed \<longrightarrow> f \<in> set trimmed \<longrightarrow>
             startswith f p \<longrightarrow> f = p"
  proof -
    from that(2) t have "\<forall>f \<in> set trimmed. startswith f p \<longrightarrow> f = p" by blast
    then have "?cp = []" using that(1) by (auto simp: child_loop_Nil)
    with cv show ?thesis by simp
  qed
  from a b c show ?thesis by blast
qed

theorem C8_child_versions_present_witness:
  "Stat fixture_fs ''/dir/'' =
     Inr (StatInfo (Some (Sha ''v1'')) (Some [(''b.txt'', StatInfo (Some (Sha ''v1'')) None)])) \<and>
   endswith_slash ''/dir/'' \<and>
   child_versions
     (StatInfo (Some (Sha ''v1'')) (Some [(''b.txt'', StatInfo (Some (Sha ''v1'')) None)])) \<noteq> None \<and>
   Stat fixture_fs ''/empty/'' = Inr (StatInfo (Some (Sha ''v1'')) None) \<and>
   endswith_slash ''/empty/'' \<and>
   child_versions (StatInfo (Some (Sha ''v1'')) None) = None"
proof -
  let ?d = "StatInfo (Some (Sha ''v1'')) (Some [(''b.txt'', StatInfo (Some (Sha ''v1'')) None)])"
  let ?e = "StatInfo (Some (Sha ''v1'')) None"
  have d: "Stat fixture_fs ''/dir/'' = Inr ?d" by code_simp
  have e: "Stat fixture_fs ''/empty/'' = Inr ?e" by code_simp
  have s: "endswith_slash ''/dir/''" "endswith_slash ''/empty/''"
    by (simp_all add: endswith_slash_def)
  have t: "trim_names (GetNamelist fixture_fs) =
      Inr [''/'', ''/a.txt'', ''/dir/'', ''/dir/b.txt'', ''/empty/'']"
    by code_simp
  have below: "\<exists>trimmed f. trim_names (GetNamelist fixture_fs) = Inr trimmed \<and> f \<in> set trimmed \<and>
      startswith f ''/dir/'' \<and> f \<noteq> ''/dir/'' \<and> CHR ''/'' \<notin> set (drop (length ''/dir/'') f)"
  proof (intro exI conjI)
    show "trim_names (GetNamelist fixture_fs) =
        Inr [''/'', ''/a.txt'', ''/dir/'', ''/dir/b.txt'', ''/empty/'']" by (rule t)
    show "''/dir/b.txt'' \<in> set [''/'', ''/a.txt'', ''/dir/'', ''/dir/b.txt'', ''/empty/'']" by simp
    show "startswith ''/dir/b.txt'' ''/dir/''" by (simp add: startswith_def)
    show "''/dir/b.txt'' \<noteq> ''/dir/''" by simp
    show "CHR ''/'' \<notin> set (drop (length ''/dir/'') ''/dir/b.txt'')" by simp
  qed
  have none: "\<forall>trimmed f. trim_names (GetNamelist fixture_fs) = Inr trimmed \<longrightarrow>
      f \<in> set trimmed \<longrightarrow> startswith f ''/empty/'' \<longrightarrow> f = ''/empty/''"
    by (simp add: t startswith_def)
  note A = C8_child_versions_present
    [OF d, THEN conjunct2, THEN conjunct1, THEN mp, OF s(1), THEN mp, OF below]
  note B = C8_child_versions_present
    [OF e, THEN conjunct2, THEN conjunct2, THEN mp, OF s(2), THEN mp, OF none]
  show ?thesis by (rule d e s A B conjI)+
qed

section \<open>Properties of Read\<close>

text \<open>
  C3. On a non-empty archive whose first name gives the root prefix, a file path \<open>p\<close> (not
  ending in the separator) such that prefix + \<open>p\<close> is an entry is read successfully:
  \<^verbatim>\<open>Read([p])\<close> maps \<open>p\<close> to the bytes that the archive holds at the entry prefix + \<open>p\<close>. This
  holds for Read of the zipball design (prefix: the first segment of the first name) and
  for Read of the earlier design on a resolved snapshot whose version is the cached one
  (prefix: the first name without its last character).
\<close>

theorem C3_read_returns_entry_bytes:
  "(repo_zip fs = Some z \<longrightarrow> namelist z = first # rest \<longrightarrow> \<not> endswith_slash p \<longrightarrow>
      split_first first @ p \<in> set (namelist z) \<longrightarrow>
      (\<exists>b. (split_first first @ p, b) \<in> set z \<and> zip_read z (split_first first @ p) = Inr b \<and>
           Read fs [p] = Inr [(p, Bytes b)])) \<and>
   (zip_file ofs = Resolved (Inr (Some z)) \<longrightarrow> object_store ofs ZIP_KEY = Some v \<longrightarrow>
      fs_version ofs = Some v \<longrightarrow> namelist z = first # rest \<longrightarrow> \<not> endswith_slash p \<longrightarrow>
      butlast first @ p \<in> set (namelist z) \<longrightarrow>
      (\<exists>b. (butlast first @ p, b) \<in> set z \<and> zip_read z (butlast first @ p) = Inr b \<and>
           Read_v1 E ofs [p] = (Inr [(p, Bytes b)], ofs)))"
proof (rule conjI)
  show "repo_zip fs = Some z \<longrightarrow> namelist z = first # rest \<longrightarrow> \<not> endswith_slash p \<longrightarrow>
      split_first first @ p \<in> set (namelist z) \<longrightarrow>
      (\<exists>b. (split_first first @ p, b) \<in> set z \<and> zip_read z (split_first first @ p) = Inr b \<and>
           Read fs [p] = Inr [(p, Bytes b)])"
    by (intro impI) (rule Read_file_entry)
next
  show "zip_file ofs = Resolved (Inr (Some z)) \<longrightarrow> object_store ofs ZIP_KEY = Some v \<longrightarrow>
      fs_version ofs = Some v \<longrightarrow> namelist z = first # rest \<longrightarrow> \<not> endswith_slash p \<longrightarrow>
      butlast first @ p \<in> set (namelist z) \<longrightarrow>
      (\<exists>b. (butlast first @ p, b) \<in> set z \<and> zip_read z (butlast first @ p) = Inr b \<and>
           Read_v1 E ofs [p] = (Inr [(p, Bytes b)], ofs))"
    by (intro impI) (rule Read_v1_file_entry)
qed

theorem C3_read_returns_entry_bytes_witness:
  "Read fixture_fs [''/dir/b.txt''] = Inr [(''/dir/b.txt'', Bytes ''B'')] \<and>
   Read_v1 fixture_env fixture_fs_v1 [''/dir/b.txt''] =
     (Inr [(''/dir/b.txt'', Bytes ''B'')], fixture_fs_v1)"
proof -
  have z: "repo_zip fixture_fs = Some fixture_zip"
    "zip_file fixture_fs_v1 = Resolved (Inr (Some fixture_zip))"
    "object_store fixture_fs_v1 ZIP_KEY = Some (Sha ''v1'')"
    "fs_version fixture_fs_v1 = Some (Sha ''v1'')"
    by (simp_all add: fixture_fs_def fixture_fs_v1_def ZIP_KEY_def)
  have e: "\<not> endswith_slash ''/dir/b.txt''" by (simp add: endswith_slash_def)
  have p: "split_first ''root-1/'' @ ''/dir/b.txt'' = ''root-1/dir/b.txt''"
    "butlast ''root-1/'' @ ''/dir/b.txt'' = ''root-1/dir/b.txt''"
    by (simp_all add: split_first_def)
  have m: "split_first ''root-1/'' @ ''/dir/b.txt'' \<in> set (namelist fixture_zip)"
    "butlast ''root-1/'' @ ''/dir/b.txt'' \<in> set (namelist fixture_zip)"
    unfolding p by (simp_all add: fixture_names)
  have r: "zip_read fixture_zip ''root-1/dir/b.txt'' = Inr ''B''"
    by (simp add: zip_read_def fixture_zip_def)
  note T = C3_read_returns_entry_bytes
    [where fs = fixture_fs and z = fixture_zip and first = "''root-1/''"
       and rest = "[''root-1/a.txt'', ''root-1/dir/'', ''root-1/dir/b.txt'', ''root-1/empty/'']"
       and p = "''/dir/b.txt''" and ofs = fixture_fs_v1 and v = "Sha ''v1''" and E = fixture_env]
  from T[THEN conjunct1, THEN mp, OF z(1), THEN mp, OF fixture_names, THEN mp, OF e,
      THEN mp, OF m(1)] obtain b where
    "zip_read fixture_zip (split_first ''root-1/'' @ ''/dir/b.txt'') = Inr b"
    "Read fixture_fs [''/dir/b.txt''] = Inr [(''/dir/b.txt'', Bytes b)]"
    by blast
  then have A: "Read fixture_fs [''/dir/b.txt''] = Inr [(''/dir/b.txt'', Bytes ''B'')]"
    unfolding p using r by simp
  from T[THEN conjunct2, THEN mp, OF z(2), THEN mp, OF z(3), THEN mp, OF z(4),
      THEN mp, OF fixture_names, THEN mp, OF e, THEN mp, OF m(2)] obtain b where
    "zip_read fixture_zip (butlast ''root-1/'' @ ''/dir/b.txt'') = Inr b"
    "Read_v1 fixture_env fixture_fs_v1 [''/dir/b.txt''] =
       (Inr [(''/dir/b.txt'', Bytes b)], fixture_fs_v1)"
    by blast
  then have B: "Read_v1 fixture_env fixture_fs_v1 [''/dir/b.txt''] =
       (Inr [(''/dir/b.txt'', Bytes ''B'')], fixture_fs_v1)"
    unfolding p using r by simp
  from A B show ?thesis by (rule conjI)
qed

text \<open>
  C7. Every name in a directory listing is an immediate child of the listed path \<open>p\<close>:
  it is not empty (so it is not \<open>p\<close> itself), it has no separator except possibly as its
  last character, and \<open>p\<close> followed by the name is an entry of the snapshot (under the root
  prefix for Read of the zipball design, among the names with the root cut off for
  \<^verbatim>\<open>_ListDir\<close> of the earlier design). A listing is only ever produced for a path that ends
  with the separator.
\<close>

theorem C7_listing_immediate_children:
  "(Read fs paths = Inr reads \<longrightarrow> (p, Listing ls) \<in> set reads \<longrightarrow> n \<in> set ls \<longrightarrow>
      endswith_slash p \<and> n \<noteq> [] \<and> CHR ''/'' \<notin> set (butlast n) \<and>
      (\<exists>first rest. GetNamelist fs = first # rest \<and>
         split_first first @ p @ n \<in> set (first # rest))) \<and>
   (ListDir E ofs p = (Inr ls, ofs') \<longrightarrow> n \<in> set ls \<longrightarrow>
      n \<noteq> [] \<and> CHR ''/'' \<notin> set (butlast n) \<and>
      (\<exists>z. zip_file_Get E ofs = (Inr (Some z), ofs') \<and> p @ n \<in> set (strip_root (namelist z))))"
proof (rule conjI)
  show "Read fs paths = Inr reads \<longrightarrow> (p, Listing ls) \<in> set reads \<longrightarrow> n \<in> set ls \<longrightarrow>
      endswith_slash p \<and> n \<noteq> [] \<and> CHR ''/'' \<notin> set (butlast n) \<and>
      (\<exists>first rest. GetNamelist fs = first # rest \<and>
         split_first first @ p @ n \<in> set (first # rest))"
    by (intro impI) (rule Read_listing_child)
next
  show "ListDir E ofs p = (Inr ls, ofs') \<longrightarrow> n \<in> set ls \<longrightarrow>
      n \<noteq> [] \<and> CHR ''/'' \<notin> set (butlast n) \<and>
      (\<exists>z. zip_file_Get E ofs = (Inr (Some z), ofs') \<and> p @ n \<in> set (strip_root (namelist z)))"
    by (intro impI) (rule ListDir_child)
qed

theorem C7_listing_immediate_children_witness:
  "Read fixture_fs [''/a.txt'', ''/''] =
     Inr [(''/a.txt'', Bytes ''A''), (''/'', Listing [''a.txt'', ''dir/'', ''empty/''])] \<and>
   ListDir fixture_env fixture_fs_v1 ''/'' = (Inr [''a.txt'', ''dir/'', ''empty/''], fixture_fs_v1) \<and>
   (endswith_slash ''/'' \<and> ''dir/'' \<noteq> [] \<and> CHR ''/'' \<notin> set (butlast ''dir/'') \<and>
    (\<exists>first rest. GetNamelist fixture_fs = first # rest \<and>
       split_first first @ ''/'' @ ''dir/'' \<in> set (first # rest))) \<and>
   (''dir/'' \<noteq> [] \<and> CHR ''/'' \<notin> set (butlast ''dir/'') \<and>
    (\<exists>z. zip_file_Get fixture_env fixture_fs_v1 = (Inr (Some z), fixture_fs_v1) \<and>
        ''/'' @ ''dir/'' \<in> set (strip_root (namelist z))))"
proof -
  have r: "Read fixture_fs [''/a.txt'', ''/''] =
     Inr [(''/a.txt'', Bytes ''A''), (''/'', Listing [''a.txt'', ''dir/'', ''empty/''])]"
    by code_simp
  have g: "zip_file_Get fixture_env fixture_fs_v1 = (Inr (Some fixture_zip), fixture_fs_v1)"
    by (rule zip_file_Get_Resolved) (simp add: fixture_fs_v1_def)
  have ln: "ListDir_names (namelist fixture_zip) ''/'' = [''a.txt'', ''dir/'', ''empty/'']"
    by code_simp
  have l: "ListDir fixture_env fixture_fs_v1 ''/'' =
      (Inr [''a.txt'', ''dir/'', ''empty/''], fixture_fs_v1)"
    using g ln by (simp add: ListDir_def)
  have m: "(''/'', Listing [''a.txt'', ''dir/'', ''empty/'']) \<in>
      set [(''/a.txt'', Bytes ''A''), (''/'', Listing [''a.txt'', ''dir/'', ''empty/''])]"
    by simp
  have d: "''dir/'' \<in> set [''a.txt'', ''dir/'', ''empty/'']"
    by simp
  note T = C7_listing_immediate_children
    [where fs = fixture_fs and paths = "[''/a.txt'', ''/'']" and p = "''/''"
       and ls = "[''a.txt'', ''dir/'', ''empty/'']" and n = "''dir/''"
       and E = fixture_env and ofs = fixture_fs_v1 and ofs' = fixture_fs_v1]
  note A = T[THEN conjunct1, THEN mp, OF r, THEN mp, OF m, THEN mp, OF d]
  note B = T[THEN conjunct2, THEN mp, OF l, THEN mp, OF d]
  show ?thesis by (rule r l A B conjI)+
qed

text \<open>
  C10. On a non-empty snapshot, a directory path that no entry matches is not an error:
  \<^verbatim>\<open>Read([p])\<close> succeeds and maps \<open>p\<close> to the empty listing, in the zipball design and, on a
  resolved snapshot whose version is the cached one, in the earlier design. An existing
  directory without children gets the same answer (see the witness).
\<close>

theorem C10_missing_directory_lists_empty:
  "(repo_zip fs = Some z \<longrightarrow> namelist z = first # rest \<longrightarrow> endswith_slash p \<longrightarrow>
      (\<forall>n \<in> set (namelist z). \<not> startswith n (split_first first @ p)) \<longrightarrow>
      Read fs [p] = Inr [(p, Listing [])]) \<and>
   (zip_file ofs = Resolved (Inr (Some z)) \<longrightarrow> object_store ofs ZIP_KEY = Some v \<longrightarrow>
      fs_version ofs = Some v \<longrightarrow> endswith_slash p \<longrightarrow>
      (\<forall>f \<in> set (strip_root (namelist z)). \<not> startswith f p) \<longrightarrow>
      Read_v1 E ofs [p] = (Inr [(p, Listing [])], ofs))"
proof (intro conjI impI)
  assume a: "repo_zip fs = Some z" "namelist z = first # rest" "endswith_slash p"
    "\<forall>n \<in> set (namelist z). \<not> startswith n (split_first first @ p)"
  from a(2,4) have "trimmed_paths (first # rest) (split_first first @ p) = []"
    using trimmed_paths_none[of "first # rest" "split_first first @ p"] by simp
  with a(1,2,3) show "Read fs [p] = Inr [(p, Listing [])]"
    by (simp add: Read_def GetNamelist_def Let_def)
next
  assume a: "zip_file ofs = Resolved (Inr (Some z))" "object_store ofs ZIP_KEY = Some v"
    "fs_version ofs = Some v" "endswith_slash p"
    "\<forall>f \<in> set (strip_root (namelist z)). \<not> startswith f p"
  have "zip_file_Get E ofs = (Inr (Some z), ofs)" using a(1) by (rule zip_file_Get_Resolved)
  then have "ListDir E ofs p = (Inr [], ofs)"
    using ListDir_names_none[OF a(5)] by (simp add: ListDir_def)
  then have "Read_v1_loop E ofs [p] [] = (Inr [(p, Listing [])], ofs)" using a(4) by simp
  then show "Read_v1 E ofs [p] = (Inr [(p, Listing [])], ofs)"
    using Read_v1_cached[OF a(2,3)] by simp
qed

theorem C10_missing_directory_lists_empty_witness:
  "Read fixture_fs [''/nothere/''] = Inr [(''/nothere/'', Listing [])] \<and>
   Read fixture_fs [''/empty/''] = Inr [(''/empty/'', Listing [])] \<and>
   Read_v1 fixture_env fixture_fs_v1 [''/nothere/''] =
     (Inr [(''/nothere/'', Listing [])], fixture_fs_v1)"
proof -
  have z: "repo_zip fixture_fs = Some fixture_zip"
    "zip_file fixture_fs_v1 = Resolved (Inr (Some fixture_zip))"
    "object_store fixture_fs_v1 ZIP_KEY = Some (Sha ''v1'')"
    "fs_version fixture_fs_v1 = Some (Sha ''v1'')"
    by (simp_all add: fixture_fs_def fixture_fs_v1_def ZIP_KEY_def)
  have e: "endswith_slash ''/nothere/''" by (simp add: endswith_slash_def)
  have m1: "\<forall>n \<in> set (namelist fixture_zip).
      \<not> startswith n (split_first ''root-1/'' @ ''/nothere/'')"
    by (simp add: fixture_names startswith_def split_first_def)
  have m2: "\<forall>f \<in> set (strip_root (namelist fixture_zip)). \<not> startswith f ''/nothere/''"
    by (simp add: fixture_names strip_root_def slice_from_def startswith_def)
  have em: "Read fixture_fs [''/empty/''] = Inr [(''/empty/'', Listing [])]"
    by code_simp
  note T = C10_missing_directory_lists_empty
    [where fs = fixture_fs and z = fixture_zip and first = "''root-1/''"
       and rest = "[''root-1/a.txt'', ''root-1/dir/'', ''root-1/dir/b.txt'', ''root-1/empty/'']"
       and p = "''/nothere/''" and ofs = fixture_fs_v1 and v = "Sha ''v1''" and E = fixture_env]
  note A = T[THEN conjunct1, THEN mp, OF z(1), THEN mp, OF fixture_names, THEN mp, OF e,
    THEN mp, OF m1]
  note B = T[THEN conjunct2, THEN mp, OF z(2), THEN mp, OF z(3), THEN mp, OF z(4),
    THEN mp, OF e, THEN mp, OF m2]
  show ?thesis by (rule A em B conjI)+
qed

text \<open>
  C4, as stated, fails in two places. On an archive without entries Read of the zipball
  design fails with a FileNotFoundError whose message is about the repository, and names
  no entry. In the earlier design, when the snapshot future holds None, Read does not
  fail: it maps the file path to the empty string.
\<close>

theorem C4_no_entry_named_counterexample:
  "Read (fixture_fs\<lparr>repo_zip := Some []\<rparr>) [''/a.txt''] =
     Inl (FileNotFoundError (Message ''No paths can be found, repository is empty'')) \<and>
   fst (Read_v1 fixture_env (fixture_fs_v1\<lparr>zip_file := Resolved (Inr None)\<rparr>) [''/a.txt'']) =
     Inr [(''/a.txt'', Bytes [])]"
  by code_simp

text \<open>
  C4, amended. In the zipball design, on a non-empty snapshot, a batch with a file path
  whose entry is absent fails as a whole with FileNotFoundError wrapping the archive's
  KeyError for prefix + \<open>q\<close>, where \<open>q\<close> is the first such path of the batch; no mapping is
  returned. When the snapshot has no names (an empty archive or None), Read fails with
  FileNotFoundError and the message that the repository is empty. In the earlier design,
  when the resolved snapshot is None and the cached version is the current one, Read
  succeeds and maps every file path to the empty string and every directory path to the
  empty listing.
\<close>

theorem C4_missing_file_fails_batch:
  "(repo_zip fs = Some z \<longrightarrow> namelist z = first # rest \<longrightarrow>
      (\<exists>p \<in> set paths. \<not> endswith_slash p \<and> split_first first @ p \<notin> set (namelist z)) \<longrightarrow>
      (\<exists>pre q post. paths = pre @ q # post \<and>
         (\<forall>r \<in> set pre. endswith_slash r \<or> split_first first @ r \<in> set (namelist z)) \<and>
         \<not> endswith_slash q \<and> split_first first @ q \<notin> set (namelist z) \<and>
         Read fs paths = Inl (FileNotFoundError (FromKeyError (split_first first @ q))))) \<and>
   (GetNamelist fs = [] \<longrightarrow>
      Read fs paths =
        Inl (FileNotFoundError (Message ''No paths can be found, repository is empty''))) \<and>
   (zip_file ofs = Resolved (Inr None) \<longrightarrow> object_store ofs ZIP_KEY = Some v \<longrightarrow>
      fs_version ofs = Some v \<longrightarrow>
      Read_v1 E ofs paths =
        (Inr (foldl (\<lambda>result p.
                 AList.update p (if endswith_slash p then Listing [] else Bytes []) result)
                [] paths), ofs))"
proof (intro conjI impI)
  assume a: "repo_zip fs = Some z" "namelist z = first # rest"
    "\<exists>p \<in> set paths. \<not> endswith_slash p \<and> split_first first @ p \<notin> set (namelist z)"
  have "Read fs paths = Read_loop fs (first # rest) (split_first first) paths []"
    using a(1,2) by (simp add: Read_def GetNamelist_def)
  with Read_loop_missing[OF a(1,3), of "first # rest" "[]"]
  show "\<exists>pre q post. paths = pre @ q # post \<and>
         (\<forall>r \<in> set pre. endswith_slash r \<or> split_first first @ r \<in> set (namelist z)) \<and>
         \<not> endswith_slash q \<and> split_first first @ q \<notin> set (namelist z) \<and>
         Read fs paths = Inl (FileNotFoundError (FromKeyError (split_first first @ q)))"
    by simp
next
  assume "GetNamelist fs = []"
  then show "Read fs paths =
        Inl (FileNotFoundError (Message ''No paths can be found, repository is empty''))"
    by (simp add: Read_def)
next
  assume a: "zip_file ofs = Resolved (Inr None)" "object_store ofs ZIP_KEY = Some v"
    "fs_version ofs = Some v"
  show "Read_v1 E ofs paths =
        (Inr (foldl (\<lambda>result p.
                 AList.update p (if endswith_slash p then Listing [] else Bytes []) result)
                [] paths), ofs)"
    using Read_v1_cached[OF a(2,3)] Read_v1_loop_no_snapshot[OF a(1)] by simp
qed

theorem C4_missing_file_fails_batch_witness:
  "(\<exists>pre q post. [''/a.txt'', ''/'', ''/zz'', ''/yy''] = pre @ q # post \<and>
      (\<forall>r \<in> set pre. endswith_slash r \<or>
         split_first ''root-1/'' @ r \<in> set (namelist fixture_zip)) \<and>
      \<not> endswith_slash q \<and> split_first ''root-1/'' @ q \<notin> set (namelist fixture_zip) \<and>
      Read fixture_fs [''/a.txt'', ''/'', ''/zz'', ''/yy''] =
        Inl (FileNotFoundError (FromKeyError (split_first ''root-1/'' @ q)))) \<and>
   Read fixture_fs [''/a.txt'', ''/'', ''/zz'', ''/yy''] =
     Inl (FileNotFoundError (FromKeyError ''root-1/zz'')) \<and>
   Read (fixture_fs\<lparr>repo_zip := None\<rparr>) [''/a.txt''] =
     Inl (FileNotFoundError (Message ''No paths can be found, repository is empty'')) \<and>
   Read_v1 fixture_env (fixture_fs_v1\<lparr>zip_file := Resolved (Inr None)\<rparr>) [''/a.txt'', ''/''] =
     (Inr [(''/a.txt'', Bytes []), (''/'', Listing [])],
      fixture_fs_v1\<lparr>zip_file := Resolved (Inr None)\<rparr>)"
proof -
  let ?paths = "[''/a.txt'', ''/'', ''/zz'', ''/yy'']"
  let ?ofs = "fixture_fs_v1\<lparr>zip_file := Resolved (Inr None)\<rparr>"
  have z: "repo_zip fixture_fs = Some fixture_zip" by (simp add: fixture_fs_def)
  have s: "endswith_slash ''/''" "\<not> endswith_slash ''/a.txt''" "\<not> endswith_slash ''/zz''"
    by (simp_all add: endswith_slash_def)
  have "split_first ''root-1/'' @ ''/zz'' \<notin> set (namelist fixture_zip)"
    by (simp add: fixture_names split_first_def)
  with s(3) have m: "\<exists>p \<in> set ?paths. \<not> endswith_slash p \<and>
      split_first ''root-1/'' @ p \<notin> set (namelist fixture_zip)"
    by simp
  have e: "GetNamelist (fixture_fs\<lparr>repo_zip := None\<rparr>) = []" by (simp add: GetNamelist_def)
  have o: "zip_file ?ofs = Resolved (Inr None)"
    "object_store ?ofs ZIP_KEY = Some (Sha ''v1'')"
    "fs_version ?ofs = Some (Sha ''v1'')"
    by (simp_all add: fixture_fs_v1_def ZIP_KEY_def)
  have r: "Read fixture_fs ?paths = Inl (FileNotFoundError (FromKeyError ''root-1/zz''))"
    by code_simp
  note A = C4_missing_file_fails_batch
    [where fs = fixture_fs and z = fixture_zip and first = "''root-1/''"
       and rest = "[''root-1/a.txt'', ''root-1/dir/'', ''root-1/dir/b.txt'', ''root-1/empty/'']"
       and paths = ?paths,
     THEN conjunct1, THEN mp, OF z, THEN mp, OF fixture_names, THEN mp, OF m]
  note B = C4_missing_file_fails_batch
    [where fs = "fixture_fs\<lparr>repo_zip := None\<rparr>" and paths = "[''/a.txt'']",
     THEN conjunct2, THEN conjunct1, THEN mp, OF e]
  note C = C4_missing_file_fails_batch
    [where ofs = ?ofs and v = "Sha ''v1''" and paths = "[''/a.txt'', ''/'']" and E = fixture_env,
     THEN conjunct2, THEN conjunct2, THEN mp, OF o(1), THEN mp, OF o(2), THEN mp, OF o(3)]
  have C': "Read_v1 fixture_env ?ofs [''/a.txt'', ''/''] =
     (Inr [(''/a.txt'', Bytes []), (''/'', Listing [])], ?ofs)"
    using C s by simp
  show ?thesis by (rule A r B C' conjI)+
qed

section \<open>Properties of refresh\<close>

text \<open>
  C1, as stated, fails for the earlier design. There an instance with a resolved snapshot
  serves \<^verbatim>\<open>/a.txt\<close>; once its version cache entry is gone, the probe reports a new
  version and the archive fetch fails (FileNotFoundError, the case the delegate catches),
  \<^verbatim>\<open>_GetZip\<close> has replaced the snapshot future, it resolves to None, and Read returns the
  empty string for \<^verbatim>\<open>/a.txt\<close>.
\<close>

theorem C1_snapshot_replaced_counterexample:
  "zip_file fixture_fs_v1 = Resolved (Inr (Some fixture_zip)) \<and>
   fst (Read_v1 fixture_env fixture_fs_v1 [''/a.txt'']) = Inr [(''/a.txt'', Bytes ''A'')] \<and>
   fst (Read_v1 (fixture_env\<lparr>zipball := Inl (FileNotFoundError (Message ''404''))\<rparr>)
          (fixture_fs_v1\<lparr>object_store := Map.empty\<rparr>) [''/a.txt'']) =
     Inr [(''/a.txt'', Bytes [])]"
  by code_simp

text \<open>
  C1, amended: the claim for the zipball design. If an instance has a snapshot installed
  and a refresh (Refresh, then the resolution of the future it returns) fails at the
  version probe, at the archive fetch or at the archive parse, then the snapshot is still
  the installed one and every later Read returns what it returned before the refresh; in
  particular a file path present in the snapshot is still mapped to its bytes there.
\<close>

theorem C1_failed_refresh_keeps_snapshot:
  assumes "repo_zip fs = Some z"
    and "(\<exists>e. commits_head E = Inl e) \<or> commits_head E = Inr None \<or>
         (\<exists>e. zipball E = Inl e) \<or> (\<exists>blob. zipball E = Inr blob \<and> ZipFile E blob = None)"
  shows "repo_zip (snd (Refresh_Get E fs)) = Some z \<and>
         Read (snd (Refresh_Get E fs)) paths = Read fs paths \<and>
         (namelist z = first # rest \<longrightarrow> \<not> endswith_slash p \<longrightarrow>
            split_first first @ p \<in> set (namelist z) \<longrightarrow>
            (\<exists>b. (split_first first @ p, b) \<in> set z \<and>
                 Read (snd (Refresh_Get E fs)) [p] = Inr [(p, Bytes b)]))"
proof -
  from Refresh_Get_failure[OF assms(2)] obtain log where
    "snd (Refresh_Get E fs) = fs\<lparr>fetches := log\<rparr>" by blast
  then have same: "repo_zip (snd (Refresh_Get E fs)) = repo_zip fs" by simp
  have keep: "repo_zip (snd (Refresh_Get E fs)) = Some z" using same assms(1) by simp
  have reads: "Read (snd (Refresh_Get E fs)) ps = Read fs ps" for ps
    using same by (rule Read_same_snapshot)
  have "\<exists>b. (split_first first @ p, b) \<in> set z \<and>
          Read (snd (Refresh_Get E fs)) [p] = Inr [(p, Bytes b)]"
    if "namelist z = first # rest" "\<not> endswith_slash p"
       "split_first first @ p \<in> set (namelist z)"
    using Read_file_entry[OF keep that] by blast
  with keep reads show ?thesis by blast
qed

theorem C1_failed_refresh_keeps_snapshot_witness:
  "repo_zip (snd (Refresh_Get (fixture_env\<lparr>zipball := Inr ''garbage''\<rparr>) fixture_fs)) =
     Some fixture_zip \<and>
   Read (snd (Refresh_Get (fixture_env\<lparr>zipball := Inr ''garbage''\<rparr>) fixture_fs)) [''/a.txt''] =
     Inr [(''/a.txt'', Bytes ''A'')] \<and>
   fetches (snd (Refresh_Get (fixture_env\<lparr>zipball := Inr ''garbage''\<rparr>) fixture_fs)) =
     fetches fixture_fs @ [''commits/HEAD'', ''zipball'']"
proof -
  let ?E = "fixture_env\<lparr>zipball := Inr ''garbage''\<rparr>"
  have z: "repo_zip fixture_fs = Some fixture_zip" by (simp add: fixture_fs_def)
  have "zipball ?E = Inr ''garbage'' \<and> ZipFile ?E ''garbage'' = None"
    by (simp add: fixture_env_def fixture_ZipFile_def)
  then have f: "(\<exists>e. commits_head ?E = Inl e) \<or> commits_head ?E = Inr None \<or>
         (\<exists>e. zipball ?E = Inl e) \<or> (\<exists>blob. zipball ?E = Inr blob \<and> ZipFile ?E blob = None)"
    by blast
  have r: "Read fixture_fs [''/a.txt''] = Inr [(''/a.txt'', Bytes ''A'')]" by code_simp
  have l: "fetches (snd (Refresh_Get ?E fixture_fs)) =
      fetches fixture_fs @ [''commits/HEAD'', ''zipball'']"
    by (simp add: Refresh_Get_def Refresh_def FetchLiveVersion_def fixture_env_def
        fixture_ZipFile_def fixture_fs_def)
  note T = C1_failed_refresh_keeps_snapshot[OF z f, where paths = "[''/a.txt'']"]
  from T r have "Read (snd (Refresh_Get ?E fixture_fs)) [''/a.txt''] = Inr [(''/a.txt'', Bytes ''A'')]"
    by simp
  with T l show ?thesis by simp
qed

text \<open>
  C2, as stated, fails for the earlier design, whose delegate stores the payload under the
  key of the new version (and deletes the superseded blob) before it parses the payload:
  after a Read that refreshes with a payload that is no zip archive, the blob store holds
  that payload, the blob of the previous version is gone, and the read gives the empty
  string.
\<close>

theorem C2_blob_written_before_parse_counterexample:
  "ZipFile (fixture_env\<lparr>zipball := Inr ''garbage''\<rparr>) ''garbage'' = None \<and>
   blobstore_github
     (snd (Read_v1 (fixture_env\<lparr>zipball := Inr ''garbage''\<rparr>)
             (fixture_fs_v1\<lparr>object_store := Map.empty\<rparr>) [''/a.txt''])) ''zipball.v2'' =
     Some ''garbage'' \<and>
   blobstore_github
     (snd (Read_v1 (fixture_env\<lparr>zipball := Inr ''garbage''\<rparr>)
             (fixture_fs_v1\<lparr>object_store := Map.empty\<rparr>) [''/a.txt''])) ''zipball.v1'' = None \<and>
   fst (Read_v1 (fixture_env\<lparr>zipball := Inr ''garbage''\<rparr>)
          (fixture_fs_v1\<lparr>object_store := Map.empty\<rparr>) [''/a.txt'']) =
     Inr [(''/a.txt'', Bytes [])]"
  by code_simp

text \<open>
  C2, amended: the claim for the zipball design. When the downloaded payload does not
  parse, a refresh leaves the blob store, the stat cache and the snapshot as they were;
  and whenever \<^verbatim>\<open>persist_fetch\<close> changes the blob store or the stat cache, the payload was
  fetched and parsed, the parsed archive is the new snapshot, and the payload and the live
  version are the new entries.
\<close>

theorem C2_unparsable_payload_not_persisted:
  "(zipball E = Inr blob \<longrightarrow> ZipFile E blob = None \<longrightarrow>
      blobstore (snd (Refresh_Get E fs)) = blobstore fs \<and>
      stat_cache (snd (Refresh_Get E fs)) = stat_cache fs \<and>
      repo_zip (snd (Refresh_Get E fs)) = repo_zip fs) \<and>
   (persist_fetch E (PersistFetch f v) fs = (r, fs') \<longrightarrow>
      blobstore fs' \<noteq> blobstore fs \<or> stat_cache fs' \<noteq> stat_cache fs \<longrightarrow>
      (\<exists>b z. f = Inr b \<and> ZipFile E b = Some z \<and> repo_zip fs' = Some z \<and>
           blobstore fs' (repo_url fs @ ''/zipball'') = Some b \<and>
           stat_cache fs' (repo_key fs) = Some v))"
proof (rule conjI)
  show "zipball E = Inr blob \<longrightarrow> ZipFile E blob = None \<longrightarrow>
      blobstore (snd (Refresh_Get E fs)) = blobstore fs \<and>
      stat_cache (snd (Refresh_Get E fs)) = stat_cache fs \<and>
      repo_zip (snd (Refresh_Get E fs)) = repo_zip fs"
  proof (intro impI)
    assume "zipball E = Inr blob" "ZipFile E blob = None"
    then have "(\<exists>e. commits_head E = Inl e) \<or> commits_head E = Inr None \<or>
         (\<exists>e. zipball E = Inl e) \<or> (\<exists>blob. zipball E = Inr blob \<and> ZipFile E blob = None)"
      by blast
    from Refresh_Get_failure[OF this] obtain log where
      "snd (Refresh_Get E fs) = fs\<lparr>fetches := log\<rparr>" by blast
    then show "blobstore (snd (Refresh_Get E fs)) = blobstore fs \<and>
      stat_cache (snd (Refresh_Get E fs)) = stat_cache fs \<and>
      repo_zip (snd (Refresh_Get E fs)) = repo_zip fs"
      by simp
  qed
next
  show "persist_fetch E (PersistFetch f v) fs = (r, fs') \<longrightarrow>
      blobstore fs' \<noteq> blobstore fs \<or> stat_cache fs' \<noteq> stat_cache fs \<longrightarrow>
      (\<exists>b z. f = Inr b \<and> ZipFile E b = Some z \<and> repo_zip fs' = Some z \<and>
           blobstore fs' (repo_url fs @ ''/zipball'') = Some b \<and>
           stat_cache fs' (repo_key fs) = Some v)"
  proof (intro impI)
    assume a: "persist_fetch E (PersistFetch f v) fs = (r, fs')"
      and b: "blobstore fs' \<noteq> blobstore fs \<or> stat_cache fs' \<noteq> stat_cache fs"
    from b have "fs' \<noteq> fs" by auto
    with persist_fetch_cases[OF a] obtain blob z where
      "f = Inr blob" "ZipFile E blob = Some z"
      "fs' = fs\<lparr>blobstore := (blobstore fs)(repo_url fs @ ''/zipball'' \<mapsto> blob),
                repo_zip := Some z,
                stat_cache := (stat_cache fs)(repo_key fs \<mapsto> v)\<rparr>"
      by blast
    then show "\<exists>b z. f = Inr b \<and> ZipFile E b = Some z \<and> repo_zip fs' = Some z \<and>
           blobstore fs' (repo_url fs @ ''/zipball'') = Some b \<and>
           stat_cache fs' (repo_key fs) = Some v"
      by simp
  qed
qed

theorem C2_unparsable_payload_not_persisted_witness:
  "(blobstore (snd (Refresh_Get (fixture_env\<lparr>zipball := Inr ''garbage''\<rparr>) fixture_fs)) =
      blobstore fixture_fs \<and>
    stat_cache (snd (Refresh_Get (fixture_env\<lparr>zipball := Inr ''garbage''\<rparr>) fixture_fs)) =
      stat_cache fixture_fs \<and>
    repo_zip (snd (Refresh_Get (fixture_env\<lparr>zipball := Inr ''garbage''\<rparr>) fixture_fs)) =
      repo_zip fixture_fs) \<and>
   (\<exists>b z. (Inr ''blob2'' :: py_error + string) = Inr b \<and> ZipFile fixture_env b = Some z \<and>
      repo_zip (snd (persist_fetch fixture_env (PersistFetch (Inr ''blob2'') (Sha ''v2'')) fixture_fs)) =
        Some z \<and>
      blobstore (snd (persist_fetch fixture_env (PersistFetch (Inr ''blob2'') (Sha ''v2'')) fixture_fs))
        (repo_url fixture_fs @ ''/zipball'') = Some b \<and>
      stat_cache (snd (persist_fetch fixture_env (PersistFetch (Inr ''blob2'') (Sha ''v2'')) fixture_fs))
        (repo_key fixture_fs) = Some (Sha ''v2''))"
proof -
  let ?E = "fixture_env\<lparr>zipball := Inr ''garbage''\<rparr>"
  let ?d = "PersistFetch (Inr ''blob2'') (Sha ''v2'')"
  let ?fs' = "snd (persist_fetch fixture_env ?d fixture_fs)"
  have g: "zipball ?E = Inr ''garbage''" "ZipFile ?E ''garbage'' = None"
    by (simp_all add: fixture_env_def fixture_ZipFile_def)
  have run: "persist_fetch fixture_env ?d fixture_fs =
      (fst (persist_fetch fixture_env ?d fixture_fs), ?fs')"
    by (simp only: prod.collapse)
  have z2: "ZipFile fixture_env ''blob2'' = Some fixture_zip2"
    by (simp add: fixture_env_def fixture_ZipFile_def)
  have "?fs' = fixture_fs\<lparr>blobstore := (blobstore fixture_fs)(repo_url fixture_fs @ ''/zipball'' \<mapsto> ''blob2''),
                repo_zip := Some fixture_zip2,
                stat_cache := (stat_cache fixture_fs)(repo_key fixture_fs \<mapsto> Sha ''v2'')\<rparr>"
    by (simp add: z2)
  then have a: "blobstore ?fs' (repo_url fixture_fs @ ''/zipball'') = Some ''blob2''"
    by simp
  have b: "blobstore fixture_fs (repo_url fixture_fs @ ''/zipball'') = Some ''blob1''"
    by (simp add: fixture_fs_def)
  have "blobstore ?fs' \<noteq> blobstore fixture_fs"
  proof
    assume "blobstore ?fs' = blobstore fixture_fs"
    then have "blobstore ?fs' (repo_url fixture_fs @ ''/zipball'') =
        blobstore fixture_fs (repo_url fixture_fs @ ''/zipball'')"
      by (rule fun_cong)
    then show False unfolding a b by simp
  qed
  then have ch: "blobstore ?fs' \<noteq> blobstore fixture_fs \<or> stat_cache ?fs' \<noteq> stat_cache fixture_fs"
    by (rule disjI1)
  note A = C2_unparsable_payload_not_persisted
    [where E = ?E and blob = "''garbage''" and fs = fixture_fs,
     THEN conjunct1, THEN mp, OF g(1), THEN mp, OF g(2)]
  note B = C2_unparsable_payload_not_persisted
    [where E = fixture_env and f = "Inr ''blob2''" and v = "Sha ''v2''" and fs = fixture_fs,
     THEN conjunct2, THEN mp, OF run, THEN mp, OF ch]
  show ?thesis by (rule A B conjI)+
qed

text \<open>
  C5, as stated, fails for the earlier design: with the version \<open>v1\<close> of the installed
  snapshot in the version cache and the live version \<open>v2\<close>, Read asks nothing of the
  Fetcher, neither the probe nor the archive, and serves the installed content.
\<close>

theorem C5_cached_version_counterexample:
  "commits_head fixture_env = Inr (Some (Sha ''v2'')) \<and>
   fs_version fixture_fs_v1 = Some (Sha ''v1'') \<and>
   object_store fixture_fs_v1 ''zipball'' = Some (Sha ''v1'') \<and>
   fetches_v1 (snd (Read_v1 fixture_env fixture_fs_v1 [''/a.txt''])) = fetches_v1 fixture_fs_v1 \<and>
   fst (Read_v1 fixture_env fixture_fs_v1 [''/a.txt'']) = Inr [(''/a.txt'', Bytes ''A'')]"
  by code_simp

text \<open>
  C5, amended. Read of the earlier design takes the version from the version cache when
  the cache holds one for the zip key, and probes the Fetcher only on a miss (taking 0
  when the answer has no sha; an exception of the probe leaves Read); it starts an archive
  fetch exactly when that version differs from the one the current snapshot was built from
  and the blob store holds no blob under that version's key. Refresh of the zipball design
  always begins with a live probe of the Fetcher.
\<close>

theorem C5_probe_and_fetch_decision:
  "(object_store ofs ZIP_KEY = Some v \<longrightarrow>
      fetches_v1 (snd (Read_v1 E ofs paths)) =
        fetches_v1 ofs @
        (if Some v \<noteq> fs_version ofs \<and> blobstore_github ofs (MakeKey (Some v)) = None
         then [ZIP_KEY] else [])) \<and>
   (object_store ofs ZIP_KEY = None \<longrightarrow> commits_head E = Inr vo \<longrightarrow>
      fetches_v1 (snd (Read_v1 E ofs paths)) =
        fetches_v1 ofs @ ''commits/HEAD'' #
        (if Some (case vo of None \<Rightarrow> Zero | Some v' \<Rightarrow> v') \<noteq> fs_version ofs \<and>
            blobstore_github ofs (MakeKey (Some (case vo of None \<Rightarrow> Zero | Some v' \<Rightarrow> v'))) = None
         then [ZIP_KEY] else [])) \<and>
   (object_store ofs ZIP_KEY = None \<longrightarrow> commits_head E = Inl e \<longrightarrow>
      Read_v1 E ofs paths =
        (Inl e, ofs\<lparr>fetches_v1 := fetches_v1 ofs @ [''commits/HEAD'']\<rparr>)) \<and>
   (\<exists>rest. fetches (snd (Refresh E fs)) = fetches fs @ ''commits/HEAD'' # rest)"
proof (intro conjI impI)
  assume "object_store ofs ZIP_KEY = Some v"
  then show "fetches_v1 (snd (Read_v1 E ofs paths)) =
        fetches_v1 ofs @
        (if Some v \<noteq> fs_version ofs \<and> blobstore_github ofs (MakeKey (Some v)) = None
         then [ZIP_KEY] else [])"
    by (rule Read_v1_fetches_hit)
next
  assume "object_store ofs ZIP_KEY = None" "commits_head E = Inr vo"
  then show "fetches_v1 (snd (Read_v1 E ofs paths)) =
        fetches_v1 ofs @ ''commits/HEAD'' #
        (if Some (case vo of None \<Rightarrow> Zero | Some v' \<Rightarrow> v') \<noteq> fs_version ofs \<and>
            blobstore_github ofs (MakeKey (Some (case vo of None \<Rightarrow> Zero | Some v' \<Rightarrow> v'))) = None
         then [ZIP_KEY] else [])"
    by (rule Read_v1_fetches_miss)
next
  assume "object_store ofs ZIP_KEY = None" "commits_head E = Inl e"
  then show "Read_v1 E ofs paths =
        (Inl e, ofs\<lparr>fetches_v1 := fetches_v1 ofs @ [''commits/HEAD'']\<rparr>)"
    by (rule Read_v1_probe_raises)
next
  show "\<exists>rest. fetches (snd (Refresh E fs)) = fetches fs @ ''commits/HEAD'' # rest"
    by (rule Refresh_probes)
qed

theorem C5_probe_and_fetch_decision_witness:
  "fetches_v1 (snd (Read_v1 fixture_env fixture_fs_v1 [''/a.txt''])) = fetches_v1 fixture_fs_v1 \<and>
   fetches_v1 (snd (Read_v1 fixture_env (fixture_fs_v1\<lparr>object_store := Map.empty\<rparr>) [''/a.txt''])) =
     fetches_v1 fixture_fs_v1 @ [''commits/HEAD'', ''zipball''] \<and>
   Read_v1 (fixture_env\<lparr>commits_head := Inl DownloadError\<rparr>)
       (fixture_fs_v1\<lparr>object_store := Map.empty\<rparr>) [''/a.txt''] =
     (Inl DownloadError,
      fixture_fs_v1\<lparr>object_store := Map.empty,
                     fetches_v1 := fetches_v1 (fixture_fs_v1\<lparr>object_store := Map.empty\<rparr>) @
                                   [''commits/HEAD'']\<rparr>) \<and>
   (\<exists>rest. fetches (snd (Refresh fixture_env fixture_fs)) = fetches fixture_fs @ ''commits/HEAD'' # rest)"
proof -
  let ?miss = "fixture_fs_v1\<lparr>object_store := Map.empty\<rparr>"
  let ?Ex = "fixture_env\<lparr>commits_head := Inl DownloadError\<rparr>"
  have h: "object_store fixture_fs_v1 ZIP_KEY = Some (Sha ''v1'')"
    by (simp add: fixture_fs_v1_def ZIP_KEY_def)
  have m: "object_store ?miss ZIP_KEY = None" by simp
  have c: "commits_head fixture_env = Inr (Some (Sha ''v2''))" by (simp add: fixture_env_def)
  have x: "commits_head ?Ex = Inl DownloadError" by simp
  note A = C5_probe_and_fetch_decision
    [where ofs = fixture_fs_v1 and v = "Sha ''v1''" and E = fixture_env and paths = "[''/a.txt'']",
     THEN conjunct1, THEN mp, OF h]
  note B = C5_probe_and_fetch_decision
    [where ofs = ?miss and vo = "Some (Sha ''v2'')" and E = fixture_env and paths = "[''/a.txt'']",
     THEN conjunct2, THEN conjunct1, THEN mp, OF m, THEN mp, OF c]
  note C = C5_probe_and_fetch_decision
    [where ofs = ?miss and e = DownloadError and E = ?Ex and paths = "[''/a.txt'']",
     THEN conjunct2, THEN conjunct2, THEN conjunct1, THEN mp, OF m, THEN mp, OF x]
  note D = C5_probe_and_fetch_decision
    [where fs = fixture_fs and E = fixture_env,
     THEN conjunct2, THEN conjunct2, THEN conjunct2]
  have A': "fetches_v1 (snd (Read_v1 fixture_env fixture_fs_v1 [''/a.txt''])) =
      fetches_v1 fixture_fs_v1"
    using A by (simp add: fixture_fs_v1_def)
  have B': "fetches_v1 (snd (Read_v1 fixture_env ?miss [''/a.txt''])) =
      fetches_v1 fixture_fs_v1 @ [''commits/HEAD'', ''zipball'']"
    using B by (simp add: fixture_fs_v1_def MakeKey_def ZIP_KEY_def)
  have C': "Read_v1 ?Ex ?miss [''/a.txt''] =
     (Inl DownloadError,
      fixture_fs_v1\<lparr>object_store := Map.empty,
                     fetches_v1 := fetches_v1 ?miss @ [''commits/HEAD'']\<rparr>)"
    using C by simp
  show ?thesis by (rule A' B' C' D conjI)+
qed

section \<open>Deferred values are resolved once\<close>

text \<open>
  C9. A future constructed with a delegate and resolved twice gives the same outcome both
  times, stays resolved with that outcome, and leaves the world as one run of the delegate
  leaves it; with the invocations of the delegate counted, the count goes up by exactly
  one. More generally a future that has been resolved once, with or without a delegate,
  gives the same outcome again and changes nothing. The delegates of the two file systems,
  \<^verbatim>\<open>_AsyncFetchFutureZip.Get\<close> and \<^verbatim>\<open>persist_fetch\<close>, are instances of \<open>run\<close>.
\<close>

theorem C9_future_resolved_once:
  "resolve_twice run (Delegate d) w =
     (fst (run d w), fst (run d w), Resolved (fst (run d w)), snd (run d w)) \<and>
   fst (snd (snd (snd (resolve_twice (counted run) (Delegate d) (c, w))))) = Suc c \<and>
   (future_Get run f w = (r, f', w') \<longrightarrow> future_Get run f' w' = (r, f', w'))"
  using resolve_twice_Delegate[of run d w] counted_once[of run d c w]
    future_Get_again[of run f w r f' w']
  by blast

theorem C9_future_resolved_once_witness:
  "fst (resolve_twice (AsyncFetchFutureZip_Get fixture_env)
          (Delegate (AsyncFetchFutureZip (Inr ''blob2'') (Some (Sha ''v2'')) (Some (Sha ''v1''))))
          fixture_fs_v1) = Inr (Some fixture_zip2) \<and>
   fst (snd (resolve_twice (AsyncFetchFutureZip_Get fixture_env)
          (Delegate (AsyncFetchFutureZip (Inr ''blob2'') (Some (Sha ''v2'')) (Some (Sha ''v1''))))
          fixture_fs_v1)) = Inr (Some fixture_zip2) \<and>
   fst (snd (snd (snd (resolve_twice (counted (AsyncFetchFutureZip_Get fixture_env))
          (Delegate (AsyncFetchFutureZip (Inr ''blob2'') (Some (Sha ''v2'')) (Some (Sha ''v1''))))
          (0, fixture_fs_v1))))) = 1 \<and>
   future_Get (persist_fetch fixture_env) (Resolved (Inr ()))
       (snd (persist_fetch fixture_env (PersistFetch (Inr ''blob2'') (Sha ''v2'')) fixture_fs)) =
     (Inr (), Resolved (Inr ()),
      snd (persist_fetch fixture_env (PersistFetch (Inr ''blob2'') (Sha ''v2'')) fixture_fs))"
proof -
  let ?run = "AsyncFetchFutureZip_Get fixture_env"
  let ?d = "AsyncFetchFutureZip (Inr ''blob2'') (Some (Sha ''v2'')) (Some (Sha ''v1''))"
  let ?p = "PersistFetch (Inr ''blob2'') (Sha ''v2'')"
  have o: "fst (?run ?d fixture_fs_v1) = Inr (Some fixture_zip2)"
    by (simp add: Let_def fixture_env_def fixture_ZipFile_def)
  note A = C9_future_resolved_once
    [where run = ?run and d = ?d and w = fixture_fs_v1 and c = 0, THEN conjunct1]
  note B = C9_future_resolved_once
    [where run = ?run and d = ?d and w = fixture_fs_v1 and c = 0,
     THEN conjunct2, THEN conjunct1]
  have first: "future_Get (persist_fetch fixture_env) (Delegate ?p) fixture_fs =
      (Inr (), Resolved (Inr ()), snd (persist_fetch fixture_env ?p fixture_fs))"
    by (simp add: fixture_env_def fixture_ZipFile_def)
  note C = C9_future_resolved_once
    [where run = "persist_fetch fixture_env" and f = "Delegate ?p" and w = fixture_fs,
     THEN conjunct2, THEN conjunct2, THEN mp, OF first]
  have A1: "fst (resolve_twice ?run (Delegate ?d) fixture_fs_v1) = Inr (Some fixture_zip2)"
    using A o by simp
  have A2: "fst (snd (resolve_twice ?run (Delegate ?d) fixture_fs_v1)) = Inr (Some fixture_zip2)"
    using A o by simp
  have B1: "fst (snd (snd (snd (resolve_twice (counted ?run) (Delegate ?d) (0, fixture_fs_v1))))) = 1"
    using B by simp
  show ?thesis by (rule A1 A2 B1 C conjI)+
qed

end
